theory Spec2Isabelle
  imports Main "HOL-Library.Product_Lexorder"
begin

section \<open>The transaction-lock engine of instantx.cpp\<close>

text \<open>
  A shallow embedding of \<^verbatim>\<open>src/instantx.cpp\<close> (classes \<^verbatim>\<open>CDirectSend\<close>,
  \<^verbatim>\<open>CTxLockRequest\<close>, \<^verbatim>\<open>CTxLockVote\<close>, \<^verbatim>\<open>COutPointLock\<close> and
  \<^verbatim>\<open>CTxLockCandidate\<close>). Every member function becomes a function on an explicit
  engine state; the collaborators the file reaches through globals (spork manager,
  masternode manager, UTXO set, mempool, clock, wallet) are the fields of an environment
  record that is fixed for the duration of one engine operation.

  Integers are mathematical (\<open>int\<close>); the two places where the source narrows or mixes
  signedness are written out (\<open>int32_wrap\<close>, \<open>int64_wrap\<close>).
\<close>

subsection \<open>Identifiers\<close>

type_synonym uint256 = nat
type_synonym COutPoint = "uint256 \<times> nat"
type_synonym CAmount = int
type_synonym signature = "nat list"
type_synonym pubkey = nat

text \<open>
  \<^verbatim>\<open>CTxLockVote::GetHash\<close> hashes exactly the three fields \<^verbatim>\<open>txHash\<close>,
  \<^verbatim>\<open>outpoint\<close>, \<^verbatim>\<open>outpointMasternode\<close>. The digest is rendered by the triple itself,
  i.e. the hash is taken to be collision free.
\<close>

type_synonym VoteHash = "uint256 \<times> COutPoint \<times> COutPoint"

subsection \<open>\<^verbatim>\<open>std::map\<close> and \<^verbatim>\<open>std::set\<close>\<close>

text \<open>
  A \<^verbatim>\<open>std::map\<close> is an association list kept in key order, so that iteration visits the
  entries as the C++ iterator does. \<open>sm_insert\<close> is \<^verbatim>\<open>insert\<close> (an existing key keeps its
  value), \<open>sm_set\<close> is assignment through \<^verbatim>\<open>operator[]\<close>, \<open>sm_erase\<close> is \<^verbatim>\<open>erase\<close> by key,
  \<open>sm_find\<close> is \<^verbatim>\<open>find\<close> and \<open>sm_count\<close> is \<^verbatim>\<open>count\<close>.
\<close>

type_synonym ('k, 'v) stdmap = "('k \<times> 'v) list"

definition sm_find :: "'k \<Rightarrow> ('k, 'v) stdmap \<Rightarrow> 'v option" where
  "sm_find k m = map_of m k"

definition sm_count :: "'k \<Rightarrow> ('k, 'v) stdmap \<Rightarrow> bool" where
  "sm_count k m = (k \<in> set (map fst m))"

fun sm_insert :: "'k::linorder \<Rightarrow> 'v \<Rightarrow> ('k, 'v) stdmap \<Rightarrow> ('k, 'v) stdmap" where
  "sm_insert k v [] = [(k, v)]"
| "sm_insert k v ((k', v') # m) =
     (if k < k' then (k, v) # (k', v') # m
      else if k = k' then (k', v') # m
      else (k', v') # sm_insert k v m)"

fun sm_set :: "'k::linorder \<Rightarrow> 'v \<Rightarrow> ('k, 'v) stdmap \<Rightarrow> ('k, 'v) stdmap" where
  "sm_set k v [] = [(k, v)]"
| "sm_set k v ((k', v') # m) =
     (if k < k' then (k, v) # (k', v') # m
      else if k = k' then (k, v) # m
      else (k', v') # sm_set k v m)"

definition sm_erase :: "'k \<Rightarrow> ('k, 'v) stdmap \<Rightarrow> ('k, 'v) stdmap" where
  "sm_erase k m = filter (\<lambda>e. fst e \<noteq> k) m"

definition sm_keys :: "('k, 'v) stdmap \<Rightarrow> 'k list" where
  "sm_keys m = map fst m"

fun set_insert :: "'a::linorder \<Rightarrow> 'a list \<Rightarrow> 'a list" where
  "set_insert x [] = [x]"
| "set_insert x (y # ys) =
     (if x < y then x # y # ys else if x = y then y # ys else y # set_insert x ys)"

subsection \<open>Data model\<close>

record CTxOut =
  nValue :: CAmount
  IsNormalPaymentScript :: bool
  IsUnspendable :: bool

text \<open>
  A lock request is a transaction: its hash (\<^verbatim>\<open>GetHash\<close>), the outpoints its inputs
  spend (\<^verbatim>\<open>txin.prevout\<close>) and its outputs.
\<close>

record CTxLockRequest =
  GetHash :: uint256
  vin :: "COutPoint list"
  vout :: "CTxOut list"

record CTxLockVote =
  txHash :: uint256
  outpoint :: COutPoint
  outpointMasternode :: COutPoint
  vchMasternodeSignature :: signature
  nConfirmedHeight :: int
  nTimeCreated :: int

definition vote_GetHash :: "CTxLockVote \<Rightarrow> VoteHash" where
  "vote_GetHash v = (txHash v, outpoint v, outpointMasternode v)"

record COutPointLock =
  lock_outpoint :: COutPoint
  mapMasternodeVotes :: "(COutPoint, CTxLockVote) stdmap"
  fAttacked :: bool

text \<open>
  The candidate's two private members are named \<open>cand_nConfirmedHeight\<close> and
  \<open>cand_nTimeCreated\<close> here, the plain names being taken by the vote. A candidate made
  by \<^verbatim>\<open>CreateEmptyTxLockCandidate\<close> holds the null request, for which the source's test
  \<^verbatim>\<open>!txLockRequest\<close> succeeds: that is \<open>None\<close>.
\<close>

record CTxLockCandidate =
  txLockRequest :: "CTxLockRequest option"
  mapOutPointLocks :: "(COutPoint, COutPointLock) stdmap"
  cand_nConfirmedHeight :: int
  cand_nTimeCreated :: int

text \<open>What a coin lookup (\<^verbatim>\<open>GetUTXOCoins\<close>) delivers about the spent output.\<close>

record CCoins =
  coin_nHeight :: int
  coin_nValue :: CAmount

text \<open>Calls the engine makes on its collaborators, in the order they happen.\<close>

datatype Event =
    RelayInv VoteHash
  | PoSeBan COutPoint
  | AskForMN COutPoint
  | NotifyTransactionLock uint256

text \<open>
  The environment: everything the file reads from other translation units. The constants
  declared in the absent headers (\<^verbatim>\<open>COutPointLock::SIGNATURES_REQUIRED\<close>,
  \<^verbatim>\<open>SIGNATURES_TOTAL\<close>, \<^verbatim>\<open>MIN_FEE\<close>, \<^verbatim>\<open>COIN\<close>, the time-outs and the rest) are
  parameters as well.
\<close>

record Env =
  fLiteMode :: bool
  SPORK_2_DIRECTSEND_ENABLED :: bool
  SPORK_3_DIRECTSEND_BLOCK_FILTERING :: bool
  SPORK_5_DIRECTSEND_MAX_VALUE :: int
  IsMasternodeListSynced :: bool
  fEnableDirectSend :: bool
  fLargeWorkForkFound :: bool
  fLargeWorkInvalidChainFound :: bool
  fDIP0001ActiveAtTip :: bool
  fMasterNode :: bool
  activeMasternode_outpoint :: COutPoint
  activeMasternode_pubKey :: pubkey
  SignMessage :: "string \<Rightarrow> signature option"
  VerifyMessage :: "pubkey \<Rightarrow> signature \<Rightarrow> string \<Rightarrow> bool"
  GetTime :: int
  chainActive_Height :: int
  GetUTXOCoins :: "COutPoint \<Rightarrow> CCoins option"
  CheckFinalTx :: "CTxLockRequest \<Rightarrow> bool"
  mempool_mapNextTx :: "COutPoint \<Rightarrow> uint256 option"
  GetTransaction_inBlock :: "uint256 \<Rightarrow> bool"
  mnodeman_Has :: "COutPoint \<Rightarrow> bool"
  mnodeman_GetMasternodeRank :: "COutPoint \<Rightarrow> int \<Rightarrow> int option"
  mnodeman_GetMasternodeInfo :: "COutPoint \<Rightarrow> pubkey option"
  wallet_UpdatedTransaction :: "uint256 \<Rightarrow> bool"
  uint256_ToString :: "uint256 \<Rightarrow> string"
  ToStringShort :: "COutPoint \<Rightarrow> string"
  SIGNATURES_REQUIRED :: int
  SIGNATURES_TOTAL :: int
  MIN_FEE :: CAmount
  COIN :: CAmount
  DIRECTSEND_CONFIRMATIONS_REQUIRED :: int
  DIRECTSEND_LOCK_TIMEOUT_SECONDS :: int
  DIRECTSEND_FAILED_TIMEOUT_SECONDS :: int
  nDirectSendKeepLock :: int
  MIN_DIRECTSEND_PROTO_VERSION :: int

text \<open>The members of \<^verbatim>\<open>CDirectSend\<close>, the completed-locks counter and the event trace.\<close>

record CDirectSend =
  nCachedBlockHeight :: int
  mapLockRequestAccepted :: "(uint256, CTxLockRequest) stdmap"
  mapLockRequestRejected :: "(uint256, CTxLockRequest) stdmap"
  mapTxLockVotes :: "(VoteHash, CTxLockVote) stdmap"
  mapTxLockVotesOrphan :: "(VoteHash, CTxLockVote) stdmap"
  mapTxLockCandidates :: "(uint256, CTxLockCandidate) stdmap"
  mapVotedOutpoints :: "(COutPoint, uint256 list) stdmap"
  mapLockedOutpoints :: "(COutPoint, uint256) stdmap"
  mapMasternodeOrphanVotes :: "(COutPoint, int) stdmap"
  nCompleteTXLocks :: int
  events :: "Event list"

definition emit :: "Event \<Rightarrow> CDirectSend \<Rightarrow> CDirectSend" where
  "emit e st = st\<lparr>events := events st @ [e]\<rparr>"

subsection \<open>Narrowing conversions\<close>

definition int32_wrap :: "int \<Rightarrow> int" where
  "int32_wrap x = (x + 2 ^ 31) mod 2 ^ 32 - 2 ^ 31"

definition int64_wrap :: "int \<Rightarrow> int" where
  "int64_wrap x = (x + 2 ^ 63) mod 2 ^ 64 - 2 ^ 63"

subsection \<open>\<^verbatim>\<open>CTxLockRequest\<close>\<close>

text \<open>
  \<^verbatim>\<open>GetMinFee\<close>: \<^verbatim>\<open>MIN_FEE / 10\<close> once DIP0001 is active at the tip, \<^verbatim>\<open>MIN_FEE\<close>
  before; C++ division of the (non-negative) constant truncates.
\<close>

definition GetMinFee :: "Env \<Rightarrow> CTxLockRequest \<Rightarrow> CAmount" where
  "GetMinFee env req =
     (let nMinFee = (if fDIP0001ActiveAtTip env then MIN_FEE env div 10 else MIN_FEE env)
      in max nMinFee (int (length (vin req)) * nMinFee))"

text \<open>
  The two loops of \<^verbatim>\<open>CTxLockRequest::IsValid\<close>. Each returns \<open>None\<close> where the source
  returns false from inside the loop, and the accumulated sum otherwise.
\<close>

fun IsValid_vout :: "CTxOut list \<Rightarrow> CAmount \<Rightarrow> CAmount option" where
  "IsValid_vout [] nValueOut = Some nValueOut"
| "IsValid_vout (txout # rest) nValueOut =
     (if \<not> IsNormalPaymentScript txout \<and> \<not> IsUnspendable txout then None
      else IsValid_vout rest (nValueOut + nValue txout))"

fun IsValid_vin :: "Env \<Rightarrow> COutPoint list \<Rightarrow> CAmount \<Rightarrow> CAmount option" where
  "IsValid_vin env [] nValueIn = Some nValueIn"
| "IsValid_vin env (prevout # rest) nValueIn =
     (case GetUTXOCoins env prevout of
        None \<Rightarrow> None
      | Some coins \<Rightarrow>
          (let nTxAge = chainActive_Height env - coin_nHeight coins + 1;
               nConfirmationsRequired = DIRECTSEND_CONFIRMATIONS_REQUIRED env - 1
           in if nTxAge < nConfirmationsRequired then None
              else IsValid_vin env rest (nValueIn + coin_nValue coins)))"

definition req_IsValid :: "Env \<Rightarrow> CTxLockRequest \<Rightarrow> bool" where
  "req_IsValid env req =
     (if length (vout req) < 1 then False
      else if \<not> CheckFinalTx env req then False
      else case IsValid_vout (vout req) 0 of
             None \<Rightarrow> False
           | Some nValueOut \<Rightarrow>
               (case IsValid_vin env (vin req) 0 of
                  None \<Rightarrow> False
                | Some nValueIn \<Rightarrow>
                    if nValueIn > SPORK_5_DIRECTSEND_MAX_VALUE env * COIN env then False
                    else if nValueIn - nValueOut < GetMinFee env req then False
                    else True))"

subsection \<open>\<^verbatim>\<open>CTxLockVote\<close>\<close>

definition CheckSignature :: "Env \<Rightarrow> CTxLockVote \<Rightarrow> bool" where
  "CheckSignature env vote =
     (let strMessage = uint256_ToString env (txHash vote) @ ToStringShort env (outpoint vote)
      in case mnodeman_GetMasternodeInfo env (outpointMasternode vote) of
           None \<Rightarrow> False
         | Some pubKeyMasternode \<Rightarrow>
             VerifyMessage env pubKeyMasternode (vchMasternodeSignature vote) strMessage)"

definition vote_IsValid :: "Env \<Rightarrow> CTxLockVote \<Rightarrow> bool" where
  "vote_IsValid env vote =
     (if \<not> mnodeman_Has env (outpointMasternode vote) then False
      else case GetUTXOCoins env (outpoint vote) of
             None \<Rightarrow> False
           | Some coins \<Rightarrow>
               (let nLockInputHeight = coin_nHeight coins + 4
                in case mnodeman_GetMasternodeRank env (outpointMasternode vote) nLockInputHeight of
                     None \<Rightarrow> False
                   | Some nRank \<Rightarrow>
                       if nRank > SIGNATURES_TOTAL env then False
                       else if \<not> CheckSignature env vote then False
                       else True))"

text \<open>
  \<^verbatim>\<open>IsValid\<close> asks the peer for the masternode when it is unknown; this is its only
  effect.
\<close>

definition vote_IsValid_effect :: "Env \<Rightarrow> CTxLockVote \<Rightarrow> CDirectSend \<Rightarrow> CDirectSend" where
  "vote_IsValid_effect env vote st =
     (if \<not> mnodeman_Has env (outpointMasternode vote)
      then emit (AskForMN (outpointMasternode vote)) st else st)"

definition vote_Sign :: "Env \<Rightarrow> CTxLockVote \<Rightarrow> CTxLockVote option" where
  "vote_Sign env vote =
     (let strMessage = uint256_ToString env (txHash vote) @ ToStringShort env (outpoint vote)
      in case SignMessage env strMessage of
           None \<Rightarrow> None
         | Some sig \<Rightarrow>
             if \<not> VerifyMessage env (activeMasternode_pubKey env) sig strMessage then None
             else Some (vote\<lparr>vchMasternodeSignature := sig\<rparr>))"

definition vote_IsExpired :: "Env \<Rightarrow> CTxLockVote \<Rightarrow> int \<Rightarrow> bool" where
  "vote_IsExpired env vote nHeight =
     (nConfirmedHeight vote \<noteq> -1 \<and> nHeight - nConfirmedHeight vote > nDirectSendKeepLock env)"

definition vote_IsTimedOut :: "Env \<Rightarrow> CTxLockVote \<Rightarrow> bool" where
  "vote_IsTimedOut env vote =
     (GetTime env - nTimeCreated vote > DIRECTSEND_LOCK_TIMEOUT_SECONDS env)"

definition vote_SetConfirmedHeight :: "int \<Rightarrow> CTxLockVote \<Rightarrow> CTxLockVote" where
  "vote_SetConfirmedHeight nConfirmedHeightIn vote = vote\<lparr>nConfirmedHeight := nConfirmedHeightIn\<rparr>"

text \<open>
  Modelled from the spec: the constructor \<^verbatim>\<open>CTxLockVote(txHash, outpoint, outpointMasternode)\<close>
  is declared in the absent header \<^verbatim>\<open>instantx.h\<close>. The spec's Vote tuple is
  \<open>(tx_hash, input, signer, signature, created_at, confirmed_height = -1)\<close>: a vote this
  node builds has no signature yet, is created now and is unconfirmed.
\<close>

definition CTxLockVote_new :: "Env \<Rightarrow> uint256 \<Rightarrow> COutPoint \<Rightarrow> COutPoint \<Rightarrow> CTxLockVote" where
  "CTxLockVote_new env txHashIn outpointIn outpointMasternodeIn =
     \<lparr>txHash = txHashIn, outpoint = outpointIn, outpointMasternode = outpointMasternodeIn,
      vchMasternodeSignature = [], nConfirmedHeight = -1, nTimeCreated = GetTime env\<rparr>"

subsection \<open>\<^verbatim>\<open>COutPointLock\<close>\<close>

definition AddVote :: "CTxLockVote \<Rightarrow> COutPointLock \<Rightarrow> bool \<times> COutPointLock" where
  "AddVote vote l =
     (if sm_count (outpointMasternode vote) (mapMasternodeVotes l) then (False, l)
      else (True, l\<lparr>mapMasternodeVotes :=
                       sm_insert (outpointMasternode vote) vote (mapMasternodeVotes l)\<rparr>))"

definition GetVotes :: "COutPointLock \<Rightarrow> CTxLockVote list" where
  "GetVotes l = map snd (mapMasternodeVotes l)"

definition HasMasternodeVoted :: "COutPointLock \<Rightarrow> COutPoint \<Rightarrow> bool" where
  "HasMasternodeVoted l outpointMasternodeIn = sm_count outpointMasternodeIn (mapMasternodeVotes l)"

text \<open>
  Modelled from the spec: \<^verbatim>\<open>COutPointLock\<close>'s constructor, \<^verbatim>\<open>CountVotes\<close>,
  \<^verbatim>\<open>IsReady\<close> and \<^verbatim>\<open>MarkAsAttacked\<close> are inline members of the absent header
  \<^verbatim>\<open>instantx.h\<close>. Section 4.1: \<open>is_ready\<close> is \<open>count >= SIGS_REQUIRED\<close>;
  \<open>mark_attacked\<close> sets \<open>attacked = true\<close>, after which the lock still accepts votes but
  its candidate must not complete; hence \<open>count\<close> is the number of votes of a lock that is
  not attacked and 0 of one that is.
\<close>

definition COutPointLock_new :: "COutPoint \<Rightarrow> COutPointLock" where
  "COutPointLock_new outpointIn =
     \<lparr>lock_outpoint = outpointIn, mapMasternodeVotes = [], fAttacked = False\<rparr>"

definition lock_CountVotes :: "COutPointLock \<Rightarrow> int" where
  "lock_CountVotes l = (if fAttacked l then 0 else int (length (mapMasternodeVotes l)))"

definition lock_IsReady :: "Env \<Rightarrow> COutPointLock \<Rightarrow> bool" where
  "lock_IsReady env l = (lock_CountVotes l \<ge> SIGNATURES_REQUIRED env)"

definition MarkAsAttacked :: "COutPointLock \<Rightarrow> COutPointLock" where
  "MarkAsAttacked l = l\<lparr>fAttacked := True\<rparr>"

subsection \<open>\<^verbatim>\<open>CTxLockCandidate\<close>\<close>

text \<open>\<open>sm_modify k f\<close> changes in place the value an iterator at key \<open>k\<close> refers to.\<close>

definition sm_modify :: "'k \<Rightarrow> ('v \<Rightarrow> 'v) \<Rightarrow> ('k, 'v) stdmap \<Rightarrow> ('k, 'v) stdmap" where
  "sm_modify k f m = map (\<lambda>e. if fst e = k then (fst e, f (snd e)) else e) m"

text \<open>
  Modelled from the spec: the constructor, \<^verbatim>\<open>GetHash\<close> and \<^verbatim>\<open>SetConfirmedHeight\<close> of
  \<^verbatim>\<open>CTxLockCandidate\<close> are inline members of the absent header \<^verbatim>\<open>instantx.h\<close>.
  Section 3: a candidate is \<open>(tx_hash, maybe_request, locks, created_at,
  confirmed_height = -1)\<close>; the source constructs it from the request alone, so the hash
  is the request's (\<open>null_request_hash\<close> for the null request). Section 4.2:
  \<open>set_confirmed_height(h)\<close> also propagates \<open>h\<close> to every contained vote.
\<close>

definition null_request_hash :: uint256 where
  "null_request_hash = 0"

definition CTxLockCandidate_new :: "Env \<Rightarrow> CTxLockRequest option \<Rightarrow> CTxLockCandidate" where
  "CTxLockCandidate_new env txLockRequestIn =
     \<lparr>txLockRequest = txLockRequestIn, mapOutPointLocks = [],
      cand_nConfirmedHeight = -1, cand_nTimeCreated = GetTime env\<rparr>"

definition cand_GetHash :: "CTxLockCandidate \<Rightarrow> uint256" where
  "cand_GetHash c = (case txLockRequest c of None \<Rightarrow> null_request_hash | Some req \<Rightarrow> GetHash req)"

definition lock_SetConfirmedHeight :: "int \<Rightarrow> COutPointLock \<Rightarrow> COutPointLock" where
  "lock_SetConfirmedHeight h l =
     l\<lparr>mapMasternodeVotes :=
         map (\<lambda>e. (fst e, vote_SetConfirmedHeight h (snd e))) (mapMasternodeVotes l)\<rparr>"

definition cand_SetConfirmedHeight :: "int \<Rightarrow> CTxLockCandidate \<Rightarrow> CTxLockCandidate" where
  "cand_SetConfirmedHeight nConfirmedHeightIn c =
     c\<lparr>cand_nConfirmedHeight := nConfirmedHeightIn,
       mapOutPointLocks :=
         map (\<lambda>e. (fst e, lock_SetConfirmedHeight nConfirmedHeightIn (snd e))) (mapOutPointLocks c)\<rparr>"

definition AddOutPointLock :: "COutPoint \<Rightarrow> CTxLockCandidate \<Rightarrow> CTxLockCandidate" where
  "AddOutPointLock outpointIn c =
     c\<lparr>mapOutPointLocks := sm_insert outpointIn (COutPointLock_new outpointIn) (mapOutPointLocks c)\<rparr>"

definition MarkOutpointAsAttacked :: "COutPoint \<Rightarrow> CTxLockCandidate \<Rightarrow> CTxLockCandidate" where
  "MarkOutpointAsAttacked outpointIn c =
     c\<lparr>mapOutPointLocks := sm_modify outpointIn MarkAsAttacked (mapOutPointLocks c)\<rparr>"

definition cand_AddVote :: "CTxLockVote \<Rightarrow> CTxLockCandidate \<Rightarrow> bool \<times> CTxLockCandidate" where
  "cand_AddVote vote c =
     (case sm_find (outpoint vote) (mapOutPointLocks c) of
        None \<Rightarrow> (False, c)
      | Some l \<Rightarrow>
          (fst (AddVote vote l),
           c\<lparr>mapOutPointLocks :=
               sm_modify (outpoint vote) (\<lambda>l. snd (AddVote vote l)) (mapOutPointLocks c)\<rparr>))"

definition IsAllOutPointsReady :: "Env \<Rightarrow> CTxLockCandidate \<Rightarrow> bool" where
  "IsAllOutPointsReady env c =
     (if mapOutPointLocks c = [] then False
      else list_all (\<lambda>e. lock_IsReady env (snd e)) (mapOutPointLocks c))"

definition cand_HasMasternodeVoted :: "CTxLockCandidate \<Rightarrow> COutPoint \<Rightarrow> COutPoint \<Rightarrow> bool" where
  "cand_HasMasternodeVoted c outpointIn outpointMasternodeIn =
     (case sm_find outpointIn (mapOutPointLocks c) of
        None \<Rightarrow> False
      | Some l \<Rightarrow> HasMasternodeVoted l outpointMasternodeIn)"

definition cand_CountVotes :: "CTxLockCandidate \<Rightarrow> int" where
  "cand_CountVotes c = sum_list (map (\<lambda>e. lock_CountVotes (snd e)) (mapOutPointLocks c))"

definition cand_IsExpired :: "Env \<Rightarrow> CTxLockCandidate \<Rightarrow> int \<Rightarrow> bool" where
  "cand_IsExpired env c nHeight =
     (cand_nConfirmedHeight c \<noteq> -1 \<and> nHeight - cand_nConfirmedHeight c > nDirectSendKeepLock env)"

definition cand_IsTimedOut :: "Env \<Rightarrow> CTxLockCandidate \<Rightarrow> bool" where
  "cand_IsTimedOut env c =
     (GetTime env - cand_nTimeCreated c > DIRECTSEND_LOCK_TIMEOUT_SECONDS env)"

subsection \<open>\<^verbatim>\<open>CDirectSend\<close>: queries\<close>

definition GetLockedOutPointTxHash :: "CDirectSend \<Rightarrow> COutPoint \<Rightarrow> uint256 option" where
  "GetLockedOutPointTxHash st outpointIn = sm_find outpointIn (mapLockedOutpoints st)"

definition IsLockedDirectSendTransaction :: "Env \<Rightarrow> CDirectSend \<Rightarrow> uint256 \<Rightarrow> bool" where
  "IsLockedDirectSendTransaction env st txHashIn =
     (if \<not> fEnableDirectSend env \<or> fLargeWorkForkFound env \<or> fLargeWorkInvalidChainFound env
         \<or> \<not> SPORK_3_DIRECTSEND_BLOCK_FILTERING env then False
      else case sm_find txHashIn (mapTxLockCandidates st) of
             None \<Rightarrow> False
           | Some c \<Rightarrow>
               if mapOutPointLocks c = [] then False
               else list_all (\<lambda>e. GetLockedOutPointTxHash st (fst e) = Some txHashIn)
                      (mapOutPointLocks c))"

definition vote_IsFailed :: "Env \<Rightarrow> CDirectSend \<Rightarrow> CTxLockVote \<Rightarrow> bool" where
  "vote_IsFailed env st vote =
     (GetTime env - nTimeCreated vote > DIRECTSEND_FAILED_TIMEOUT_SECONDS env
      \<and> \<not> IsLockedDirectSendTransaction env st (txHash vote))"

text \<open>
  \<^verbatim>\<open>GetAverageMasternodeOrphanVoteTime\<close>: the sum is an \<^verbatim>\<open>int64_t\<close>, the divisor
  \<^verbatim>\<open>size()\<close> is an unsigned 64-bit \<^verbatim>\<open>size_t\<close>, so the division is done on the
  unsigned reading of the sum and the quotient is read back as \<^verbatim>\<open>int64_t\<close>.
\<close>

definition GetAverageMasternodeOrphanVoteTime :: "CDirectSend \<Rightarrow> int" where
  "GetAverageMasternodeOrphanVoteTime st =
     (if mapMasternodeOrphanVotes st = [] then 0
      else let total = int64_wrap (sum_list (map snd (mapMasternodeOrphanVotes st)))
           in int64_wrap ((total mod 2 ^ 64) div int (length (mapMasternodeOrphanVotes st))))"

text \<open>
  The scan of \<^verbatim>\<open>IsEnoughOrphanVotesForTxAndOutPoint\<close>, \<open>nCountVotes\<close> being the
  running count.
\<close>

fun orphan_votes_scan ::
    "Env \<Rightarrow> uint256 \<Rightarrow> COutPoint \<Rightarrow> (VoteHash, CTxLockVote) stdmap \<Rightarrow> int \<Rightarrow> bool" where
  "orphan_votes_scan env txHashIn outpointIn [] nCountVotes = False"
| "orphan_votes_scan env txHashIn outpointIn (e # rest) nCountVotes =
     (if txHash (snd e) = txHashIn \<and> outpoint (snd e) = outpointIn
      then (if nCountVotes + 1 \<ge> SIGNATURES_REQUIRED env then True
            else orphan_votes_scan env txHashIn outpointIn rest (nCountVotes + 1))
      else orphan_votes_scan env txHashIn outpointIn rest nCountVotes)"

definition IsEnoughOrphanVotesForTxAndOutPoint ::
    "Env \<Rightarrow> CDirectSend \<Rightarrow> uint256 \<Rightarrow> COutPoint \<Rightarrow> bool" where
  "IsEnoughOrphanVotesForTxAndOutPoint env st txHashIn outpointIn =
     orphan_votes_scan env txHashIn outpointIn (mapTxLockVotesOrphan st) 0"

definition IsEnoughOrphanVotesForTx :: "Env \<Rightarrow> CDirectSend \<Rightarrow> CTxLockRequest \<Rightarrow> bool" where
  "IsEnoughOrphanVotesForTx env st req =
     list_all (\<lambda>prevout. IsEnoughOrphanVotesForTxAndOutPoint env st (GetHash req) prevout) (vin req)"

subsection \<open>\<^verbatim>\<open>CDirectSend\<close>: maintenance\<close>

definition UpdatedBlockTip :: "int \<Rightarrow> CDirectSend \<Rightarrow> CDirectSend" where
  "UpdatedBlockTip nHeight st = st\<lparr>nCachedBlockHeight := nHeight\<rparr>"

definition AcceptLockRequest :: "CTxLockRequest \<Rightarrow> CDirectSend \<Rightarrow> CDirectSend" where
  "AcceptLockRequest req st =
     st\<lparr>mapLockRequestAccepted := sm_insert (GetHash req) req (mapLockRequestAccepted st)\<rparr>"

definition RejectLockRequest :: "CTxLockRequest \<Rightarrow> CDirectSend \<Rightarrow> CDirectSend" where
  "RejectLockRequest req st =
     st\<lparr>mapLockRequestRejected := sm_insert (GetHash req) req (mapLockRequestRejected st)\<rparr>"

text \<open>
  The first loop of \<^verbatim>\<open>CheckAndRemove\<close>, one iteration: an expired candidate takes its
  outpoints out of \<^verbatim>\<open>mapLockedOutpoints\<close> and \<^verbatim>\<open>mapVotedOutpoints\<close>, its hash out of
  both request maps, and leaves \<^verbatim>\<open>mapTxLockCandidates\<close>.
\<close>

definition remove_expired_candidate ::
    "Env \<Rightarrow> uint256 \<times> CTxLockCandidate \<Rightarrow> CDirectSend \<Rightarrow> CDirectSend" where
  "remove_expired_candidate env e st =
     (let txLockCandidate = snd e; txHashC = cand_GetHash txLockCandidate
      in if cand_IsExpired env txLockCandidate (nCachedBlockHeight st)
         then st\<lparr>mapLockedOutpoints :=
                    fold sm_erase (sm_keys (mapOutPointLocks txLockCandidate)) (mapLockedOutpoints st),
                  mapVotedOutpoints :=
                    fold sm_erase (sm_keys (mapOutPointLocks txLockCandidate)) (mapVotedOutpoints st),
                  mapLockRequestAccepted := sm_erase txHashC (mapLockRequestAccepted st),
                  mapLockRequestRejected := sm_erase txHashC (mapLockRequestRejected st),
                  mapTxLockCandidates := sm_erase (fst e) (mapTxLockCandidates st)\<rparr>
         else st)"

text \<open>The third loop, one iteration: a timed out orphan vote leaves both vote maps.\<close>

definition remove_timed_out_orphan ::
    "Env \<Rightarrow> VoteHash \<times> CTxLockVote \<Rightarrow> CDirectSend \<Rightarrow> CDirectSend" where
  "remove_timed_out_orphan env e st =
     (if vote_IsTimedOut env (snd e)
      then st\<lparr>mapTxLockVotes := sm_erase (fst e) (mapTxLockVotes st),
               mapTxLockVotesOrphan := sm_erase (fst e) (mapTxLockVotesOrphan st)\<rparr>
      else st)"

text \<open>The five loops of \<^verbatim>\<open>CheckAndRemove\<close>, in the order of the source.\<close>

definition remove_expired_candidates :: "Env \<Rightarrow> CDirectSend \<Rightarrow> CDirectSend" where
  "remove_expired_candidates env st =
     fold (remove_expired_candidate env) (mapTxLockCandidates st) st"

definition remove_expired_votes :: "Env \<Rightarrow> CDirectSend \<Rightarrow> CDirectSend" where
  "remove_expired_votes env st =
     st\<lparr>mapTxLockVotes :=
          filter (\<lambda>e. \<not> vote_IsExpired env (snd e) (nCachedBlockHeight st)) (mapTxLockVotes st)\<rparr>"

definition remove_timed_out_orphans :: "Env \<Rightarrow> CDirectSend \<Rightarrow> CDirectSend" where
  "remove_timed_out_orphans env st =
     fold (remove_timed_out_orphan env) (mapTxLockVotesOrphan st) st"

definition remove_failed_votes :: "Env \<Rightarrow> CDirectSend \<Rightarrow> CDirectSend" where
  "remove_failed_votes env st =
     st\<lparr>mapTxLockVotes := filter (\<lambda>e. \<not> vote_IsFailed env st (snd e)) (mapTxLockVotes st)\<rparr>"

definition remove_timed_out_masternode_orphans :: "Env \<Rightarrow> CDirectSend \<Rightarrow> CDirectSend" where
  "remove_timed_out_masternode_orphans env st =
     st\<lparr>mapMasternodeOrphanVotes :=
          filter (\<lambda>e. \<not> snd e < GetTime env) (mapMasternodeOrphanVotes st)\<rparr>"

definition CheckAndRemove :: "Env \<Rightarrow> CDirectSend \<Rightarrow> CDirectSend" where
  "CheckAndRemove env st =
     (if \<not> IsMasternodeListSynced env then st
      else remove_timed_out_masternode_orphans env
             (remove_failed_votes env
                (remove_timed_out_orphans env
                   (remove_expired_votes env
                      (remove_expired_candidates env st)))))"

text \<open>
  \<^verbatim>\<open>SyncTransaction\<close>. The block argument is \<^verbatim>\<open>NULL\<close> (\<open>NoBlock\<close>), a block missing
  from \<^verbatim>\<open>mapBlockIndex\<close> (\<open>BlockUnknown\<close>) or a block of known height.
\<close>

datatype BlockArg = NoBlock | BlockUnknown | BlockAtHeight int

text \<open>
  The inner loop of \<^verbatim>\<open>SyncTransaction\<close>: the height goes to the entry of
  \<^verbatim>\<open>mapTxLockVotes\<close> found under the hash of each vote of the candidate.
\<close>

definition sync_votes :: "int \<Rightarrow> CTxLockVote list \<Rightarrow> CDirectSend \<Rightarrow> CDirectSend" where
  "sync_votes nHeightNew vVotes st =
     fold (\<lambda>vote s. s\<lparr>mapTxLockVotes :=
                          sm_modify (vote_GetHash vote) (vote_SetConfirmedHeight nHeightNew)
                            (mapTxLockVotes s)\<rparr>) vVotes st"

text \<open>
  Modelled from the spec: the default constructor of \<^verbatim>\<open>CTxLockVote\<close> (absent header),
  which \<^verbatim>\<open>operator[]\<close> runs in the orphan loop of \<^verbatim>\<open>SyncTransaction\<close> when the key is
  missing from \<^verbatim>\<open>mapTxLockVotes\<close>: the Vote tuple of section 3 with null identity fields,
  no signature, created now, \<open>confirmed_height = -1\<close>.
\<close>

definition CTxLockVote_default :: "Env \<Rightarrow> CTxLockVote" where
  "CTxLockVote_default env = CTxLockVote_new env 0 (0, 4294967295) (0, 4294967295)"

definition sync_orphan :: "Env \<Rightarrow> uint256 \<Rightarrow> int \<Rightarrow> VoteHash \<times> CTxLockVote \<Rightarrow> CDirectSend \<Rightarrow> CDirectSend" where
  "sync_orphan env txHashIn nHeightNew e st =
     (if txHash (snd e) = txHashIn
      then st\<lparr>mapTxLockVotes :=
                 sm_modify (fst e) (vote_SetConfirmedHeight nHeightNew)
                   (sm_insert (fst e) (CTxLockVote_default env) (mapTxLockVotes st))\<rparr>
      else st)"

definition SyncTransaction :: "Env \<Rightarrow> bool \<Rightarrow> uint256 \<Rightarrow> BlockArg \<Rightarrow> CDirectSend \<Rightarrow> CDirectSend" where
  "SyncTransaction env IsCoinBase txHashIn pblock st =
     (if IsCoinBase then st
      else if pblock = BlockUnknown then st
      else
        let nHeightNew = (case pblock of BlockAtHeight h \<Rightarrow> h | _ \<Rightarrow> -1);
            st1 = (case sm_find txHashIn (mapTxLockCandidates st) of
                     None \<Rightarrow> st
                   | Some c \<Rightarrow>
                       sync_votes nHeightNew
                         (concat (map (\<lambda>e. GetVotes (snd e))
                            (mapOutPointLocks (cand_SetConfirmedHeight nHeightNew c))))
                         (st\<lparr>mapTxLockCandidates :=
                               sm_modify txHashIn (cand_SetConfirmedHeight nHeightNew)
                                 (mapTxLockCandidates st)\<rparr>))
        in fold (sync_orphan env txHashIn nHeightNew) (mapTxLockVotesOrphan st1) st1)"

subsection \<open>\<^verbatim>\<open>CDirectSend\<close>: finalisation\<close>

text \<open>
  A member function that takes a \<^verbatim>\<open>CTxLockCandidate&\<close> is given the key under which
  that candidate sits in \<^verbatim>\<open>mapTxLockCandidates\<close>; it reads the candidate there. Where
  the referenced entry is gone the function does nothing.
\<close>

definition modify_candidate ::
    "uint256 \<Rightarrow> (CTxLockCandidate \<Rightarrow> CTxLockCandidate) \<Rightarrow> CDirectSend \<Rightarrow> CDirectSend" where
  "modify_candidate k f st = st\<lparr>mapTxLockCandidates := sm_modify k f (mapTxLockCandidates st)\<rparr>"

definition CTxLockRequest_null :: CTxLockRequest where
  "CTxLockRequest_null = \<lparr>GetHash = null_request_hash, vin = [], vout = []\<rparr>"

definition the_request :: "CTxLockRequest option \<Rightarrow> CTxLockRequest" where
  "the_request r = (case r of None \<Rightarrow> CTxLockRequest_null | Some req \<Rightarrow> req)"

definition LockTransactionInputs :: "Env \<Rightarrow> uint256 \<Rightarrow> CDirectSend \<Rightarrow> CDirectSend" where
  "LockTransactionInputs env k st =
     (if \<not> SPORK_2_DIRECTSEND_ENABLED env then st
      else case sm_find k (mapTxLockCandidates st) of
             None \<Rightarrow> st
           | Some c \<Rightarrow>
               if \<not> IsAllOutPointsReady env c then st
               else st\<lparr>mapLockedOutpoints :=
                         fold (\<lambda>outpointIn m. sm_insert outpointIn (cand_GetHash c) m)
                           (sm_keys (mapOutPointLocks c)) (mapLockedOutpoints st)\<rparr>)"

definition UpdateLockedTransaction :: "Env \<Rightarrow> uint256 \<Rightarrow> CDirectSend \<Rightarrow> CDirectSend" where
  "UpdateLockedTransaction env k st =
     (case sm_find k (mapTxLockCandidates st) of
        None \<Rightarrow> st
      | Some c \<Rightarrow>
          if \<not> IsLockedDirectSendTransaction env st (cand_GetHash c) then st
          else let st1 = (if wallet_UpdatedTransaction env (cand_GetHash c)
                          then st\<lparr>nCompleteTXLocks := nCompleteTXLocks st + 1\<rparr> else st)
               in emit (NotifyTransactionLock (cand_GetHash c)) st1)"

text \<open>
  The branch of \<^verbatim>\<open>ResolveConflicts\<close> taken on a completed lock of another
  transaction: both candidates get confirmed height 0, \<^verbatim>\<open>CheckAndRemove\<close> runs, both
  requests go to \<^verbatim>\<open>mapLockRequestRejected\<close>, the result is false.
\<close>

definition drop_both :: "Env \<Rightarrow> uint256 \<Rightarrow> uint256 \<Rightarrow> CDirectSend \<Rightarrow> bool \<times> CDirectSend" where
  "drop_both env txHashIn hashConflicting st =
     (case sm_find txHashIn (mapTxLockCandidates st) of
        None \<Rightarrow> (False, st)
      | Some c \<Rightarrow>
          (case sm_find hashConflicting (mapTxLockCandidates st) of
             None \<Rightarrow> (False, st)
           | Some cc \<Rightarrow>
               let req = the_request (txLockRequest c);
                   reqConflicting = the_request (txLockRequest cc);
                   st1 = modify_candidate txHashIn (cand_SetConfirmedHeight 0) st;
                   st2 = modify_candidate hashConflicting (cand_SetConfirmedHeight 0) st1;
                   st3 = CheckAndRemove env st2
               in (False,
                   st3\<lparr>mapLockRequestRejected :=
                         sm_insert hashConflicting reqConflicting
                           (sm_insert txHashIn req (mapLockRequestRejected st3))\<rparr>)))"

text \<open>
  The first loop of \<^verbatim>\<open>ResolveConflicts\<close> over \<^verbatim>\<open>txLockRequest.vin\<close>: \<open>Some r\<close> where
  the source returns \<open>r\<close> from inside the loop, \<open>None\<close> where the loop runs to its end.
\<close>

fun ResolveConflicts_vin ::
    "Env \<Rightarrow> uint256 \<Rightarrow> COutPoint list \<Rightarrow> CDirectSend \<Rightarrow> (bool \<times> CDirectSend) option" where
  "ResolveConflicts_vin env txHashIn [] st = None"
| "ResolveConflicts_vin env txHashIn (prevout # rest) st =
     (case GetLockedOutPointTxHash st prevout of
        Some hashConflicting \<Rightarrow>
          if txHashIn \<noteq> hashConflicting then Some (drop_both env txHashIn hashConflicting st)
          else (case mempool_mapNextTx env prevout of
                  None \<Rightarrow> ResolveConflicts_vin env txHashIn rest st
                | Some hashMempool \<Rightarrow>
                    if txHashIn = hashMempool then ResolveConflicts_vin env txHashIn rest st
                    else Some (False, st))
      | None \<Rightarrow>
          (case mempool_mapNextTx env prevout of
             None \<Rightarrow> ResolveConflicts_vin env txHashIn rest st
           | Some hashMempool \<Rightarrow>
               if txHashIn = hashMempool then ResolveConflicts_vin env txHashIn rest st
               else Some (False, st)))"

definition ResolveConflicts :: "Env \<Rightarrow> uint256 \<Rightarrow> CDirectSend \<Rightarrow> bool \<times> CDirectSend" where
  "ResolveConflicts env k st =
     (case sm_find k (mapTxLockCandidates st) of
        None \<Rightarrow> (False, st)
      | Some c \<Rightarrow>
          if \<not> IsAllOutPointsReady env c then (False, st)
          else
            (case ResolveConflicts_vin env (cand_GetHash c) (vin (the_request (txLockRequest c))) st of
               Some r \<Rightarrow> r
             | None \<Rightarrow>
                 if GetTransaction_inBlock env (cand_GetHash c) then (True, st)
                 else if list_all (\<lambda>prevout. GetUTXOCoins env prevout \<noteq> None)
                           (vin (the_request (txLockRequest c)))
                 then (True, st)
                 else (False, st)))"

definition TryToFinalizeLockCandidate :: "Env \<Rightarrow> uint256 \<Rightarrow> CDirectSend \<Rightarrow> CDirectSend" where
  "TryToFinalizeLockCandidate env k st =
     (if \<not> SPORK_2_DIRECTSEND_ENABLED env then st
      else case sm_find k (mapTxLockCandidates st) of
             None \<Rightarrow> st
           | Some c \<Rightarrow>
               if IsAllOutPointsReady env c
                  \<and> \<not> IsLockedDirectSendTransaction env st (cand_GetHash c)
               then (case ResolveConflicts env k st of
                       (True, st1) \<Rightarrow>
                         UpdateLockedTransaction env k (LockTransactionInputs env k st1)
                     | (False, st1) \<Rightarrow> st1)
               else st)"

subsection \<open>\<^verbatim>\<open>CDirectSend\<close>: candidates\<close>

definition CreateTxLockCandidate :: "Env \<Rightarrow> CTxLockRequest \<Rightarrow> CDirectSend \<Rightarrow> bool \<times> CDirectSend" where
  "CreateTxLockCandidate env req st =
     (if \<not> req_IsValid env req then (False, st)
      else case sm_find (GetHash req) (mapTxLockCandidates st) of
             None \<Rightarrow>
               (True,
                st\<lparr>mapTxLockCandidates :=
                     sm_insert (GetHash req)
                       (fold AddOutPointLock (rev (vin req)) (CTxLockCandidate_new env (Some req)))
                       (mapTxLockCandidates st)\<rparr>)
           | Some c \<Rightarrow>
               if txLockRequest c = None
               then (let st1 = modify_candidate (GetHash req) (\<lambda>c. c\<lparr>txLockRequest := Some req\<rparr>) st
                     in if cand_IsTimedOut env c then (False, st1)
                        else (True,
                              modify_candidate (GetHash req)
                                (fold AddOutPointLock (rev (vin req))) st1))
               else (True, st))"

definition CreateEmptyTxLockCandidate :: "Env \<Rightarrow> uint256 \<Rightarrow> CDirectSend \<Rightarrow> CDirectSend" where
  "CreateEmptyTxLockCandidate env txHashIn st =
     (if sm_count txHashIn (mapTxLockCandidates st) then st
      else st\<lparr>mapTxLockCandidates :=
                sm_insert txHashIn (CTxLockCandidate_new env None) (mapTxLockCandidates st)\<rparr>)"

subsection \<open>\<^verbatim>\<open>CDirectSend::Vote\<close>\<close>

text \<open>
  The \<^verbatim>\<open>fAlreadyVoted\<close> scan over the hashes voted for an outpoint. The source
  dereferences \<^verbatim>\<open>mapTxLockCandidates.find(hash)\<close> unchecked; a hash without candidate
  counts as not voted here.
\<close>

definition Vote_fAlreadyVoted :: "Env \<Rightarrow> CDirectSend \<Rightarrow> COutPoint \<Rightarrow> bool" where
  "Vote_fAlreadyVoted env st outpointIn =
     (case sm_find outpointIn (mapVotedOutpoints st) of
        None \<Rightarrow> False
      | Some hashes \<Rightarrow>
          list_ex (\<lambda>hash. case sm_find hash (mapTxLockCandidates st) of
                             None \<Rightarrow> False
                           | Some c2 \<Rightarrow>
                               cand_HasMasternodeVoted c2 outpointIn (activeMasternode_outpoint env))
            hashes)"

text \<open>
  What the loop body does once the vote is signed and checked: store it, add it to the
  outpoint lock and, if that succeeded, record the hash under the outpoint and relay.
\<close>

definition Vote_store :: "uint256 \<Rightarrow> uint256 \<Rightarrow> CTxLockVote \<Rightarrow> CDirectSend \<Rightarrow> CDirectSend" where
  "Vote_store k txHashIn vote st =
     (let st1 = st\<lparr>mapTxLockVotes := sm_insert (vote_GetHash vote) vote (mapTxLockVotes st)\<rparr>
      in case sm_find k (mapTxLockCandidates st1) of
           None \<Rightarrow> st1
         | Some c \<Rightarrow>
             if fst (cand_AddVote vote c)
             then (let st2 = modify_candidate k (\<lambda>c. snd (cand_AddVote vote c)) st1;
                       st3 = (case sm_find (outpoint vote) (mapVotedOutpoints st2) of
                                None \<Rightarrow>
                                  st2\<lparr>mapVotedOutpoints :=
                                        sm_insert (outpoint vote) [txHashIn] (mapVotedOutpoints st2)\<rparr>
                              | Some hashes \<Rightarrow>
                                  st2\<lparr>mapVotedOutpoints :=
                                        sm_set (outpoint vote) (set_insert txHashIn hashes)
                                          (mapVotedOutpoints st2)\<rparr>)
                   in emit (RelayInv (vote_GetHash vote)) st3)
             else st1)"

text \<open>
  The \<^verbatim>\<open>while\<close> loop of \<^verbatim>\<open>Vote\<close> over the outpoints of the candidate. Reaching the
  end of an equation's \<open>if\<close> chain without recursion is the source's \<^verbatim>\<open>return\<close>.
\<close>

fun Vote_loop :: "Env \<Rightarrow> uint256 \<Rightarrow> uint256 \<Rightarrow> COutPoint list \<Rightarrow> CDirectSend \<Rightarrow> CDirectSend" where
  "Vote_loop env k txHashIn [] st = st"
| "Vote_loop env k txHashIn (outpointIn # rest) st =
     (case GetUTXOCoins env outpointIn of
        None \<Rightarrow> st
      | Some coins \<Rightarrow>
          if coin_nHeight coins = -1 then st
          else
            (case mnodeman_GetMasternodeRank env (activeMasternode_outpoint env)
                    (coin_nHeight coins + 4) of
               None \<Rightarrow> Vote_loop env k txHashIn rest st
             | Some nRank \<Rightarrow>
                 if nRank > SIGNATURES_TOTAL env then Vote_loop env k txHashIn rest st
                 else if Vote_fAlreadyVoted env st outpointIn then Vote_loop env k txHashIn rest st
                 else
                   (case vote_Sign env
                           (CTxLockVote_new env txHashIn outpointIn (activeMasternode_outpoint env)) of
                      None \<Rightarrow> st
                    | Some vote \<Rightarrow>
                        if \<not> CheckSignature env vote then st
                        else Vote_loop env k txHashIn rest (Vote_store k txHashIn vote st))))"

definition Vote :: "Env \<Rightarrow> uint256 \<Rightarrow> CDirectSend \<Rightarrow> CDirectSend" where
  "Vote env k st =
     (if \<not> fMasterNode env then st
      else if \<not> SPORK_2_DIRECTSEND_ENABLED env then st
      else case sm_find k (mapTxLockCandidates st) of
             None \<Rightarrow> st
           | Some c \<Rightarrow> Vote_loop env k (cand_GetHash c) (sm_keys (mapOutPointLocks c)) st)"

subsection \<open>\<^verbatim>\<open>CDirectSend::ProcessTxLockVote\<close> and \<^verbatim>\<open>ProcessTxLockRequest\<close>\<close>

text \<open>
  The orphan spam check at the end of the orphan branch. The deadline is computed in an
  \<^verbatim>\<open>int\<close>.
\<close>

definition orphan_rate_check :: "Env \<Rightarrow> CTxLockVote \<Rightarrow> CDirectSend \<Rightarrow> bool \<times> CDirectSend" where
  "orphan_rate_check env vote st =
     (let nMasternodeOrphanExpireTime = int32_wrap (GetTime env + 60 * 10)
      in case sm_find (outpointMasternode vote) (mapMasternodeOrphanVotes st) of
           None \<Rightarrow>
             (True,
              st\<lparr>mapMasternodeOrphanVotes :=
                   sm_set (outpointMasternode vote) nMasternodeOrphanExpireTime
                     (mapMasternodeOrphanVotes st)\<rparr>)
         | Some nPrevOrphanVote \<Rightarrow>
             if nPrevOrphanVote > GetTime env
                \<and> nPrevOrphanVote > GetAverageMasternodeOrphanVoteTime st
             then (False, st)
             else (True,
                   st\<lparr>mapMasternodeOrphanVotes :=
                        sm_set (outpointMasternode vote) nMasternodeOrphanExpireTime
                          (mapMasternodeOrphanVotes st)\<rparr>))"

text \<open>
  One round of the loop over \<^verbatim>\<open>mapVotedOutpoints[vote.GetOutpoint()]\<close>: another
  candidate in which the same masternode voted on the same outpoint makes both
  candidates' outpoint attacked and bans the masternode.
\<close>

definition conflicting_vote_check :: "CTxLockVote \<Rightarrow> uint256 \<Rightarrow> CDirectSend \<Rightarrow> CDirectSend" where
  "conflicting_vote_check vote hash st =
     (if hash \<noteq> txHash vote
      then (case sm_find hash (mapTxLockCandidates st) of
              None \<Rightarrow> st
            | Some c2 \<Rightarrow>
                if cand_HasMasternodeVoted c2 (outpoint vote) (outpointMasternode vote)
                then emit (PoSeBan (outpointMasternode vote))
                       (modify_candidate hash (MarkOutpointAsAttacked (outpoint vote))
                          (modify_candidate (txHash vote) (MarkOutpointAsAttacked (outpoint vote)) st))
                else st)
      else st)"

definition record_voted_outpoint :: "CTxLockVote \<Rightarrow> CDirectSend \<Rightarrow> CDirectSend" where
  "record_voted_outpoint vote st =
     (case sm_find (outpoint vote) (mapVotedOutpoints st) of
        Some hashes \<Rightarrow>
          (let st1 = fold (conflicting_vote_check vote) hashes st
           in st1\<lparr>mapVotedOutpoints :=
                    sm_set (outpoint vote) (set_insert (txHash vote) hashes) (mapVotedOutpoints st1)\<rparr>)
      | None \<Rightarrow>
          st\<lparr>mapVotedOutpoints := sm_insert (outpoint vote) [txHash vote] (mapVotedOutpoints st)\<rparr>)"

text \<open>
  \<^verbatim>\<open>ProcessTxLockVote\<close> calls \<^verbatim>\<open>ProcessTxLockRequest\<close>, which through
  \<^verbatim>\<open>ProcessOrphanTxLockVotes\<close> calls \<^verbatim>\<open>ProcessTxLockVote\<close> again. The bodies are
  written once, over the function they call (\<open>preq\<close>, \<open>pvote\<close>); the recursion is tied
  below with a bound on its depth, \<open>None\<close> meaning that the bound was reached.
\<close>

definition ProcessTxLockVote_orphan ::
    "(CTxLockRequest \<Rightarrow> CDirectSend \<Rightarrow> (bool \<times> CDirectSend) option)
     \<Rightarrow> Env \<Rightarrow> CTxLockVote \<Rightarrow> CDirectSend \<Rightarrow> (bool \<times> CDirectSend) option" where
  "ProcessTxLockVote_orphan preq env vote st =
     (if \<not> sm_count (vote_GetHash vote) (mapTxLockVotesOrphan st)
      then
        (let st1 = CreateEmptyTxLockCandidate env (txHash vote) st;
             st2 = st1\<lparr>mapTxLockVotesOrphan :=
                         sm_set (vote_GetHash vote) vote (mapTxLockVotesOrphan st1)\<rparr>;
             itLockRequest =
               (case sm_find (txHash vote) (mapLockRequestAccepted st2) of
                  Some r \<Rightarrow> Some r
                | None \<Rightarrow> sm_find (txHash vote) (mapLockRequestRejected st2))
         in case itLockRequest of
              None \<Rightarrow> Some (orphan_rate_check env vote st2)
            | Some r \<Rightarrow>
                if IsEnoughOrphanVotesForTx env st2 r
                then (case preq r st2 of
                        None \<Rightarrow> None
                      | Some res \<Rightarrow> Some (True, snd res))
                else Some (orphan_rate_check env vote st2))
      else Some (orphan_rate_check env vote st))"

definition ProcessTxLockVote_attach ::
    "Env \<Rightarrow> CTxLockVote \<Rightarrow> CTxLockCandidate \<Rightarrow> CDirectSend \<Rightarrow> bool \<times> CDirectSend" where
  "ProcessTxLockVote_attach env vote txLockCandidate st =
     (if cand_IsTimedOut env txLockCandidate then (False, st)
      else
        (let st1 = record_voted_outpoint vote st
         in case sm_find (txHash vote) (mapTxLockCandidates st1) of
              None \<Rightarrow> (False, st1)
            | Some c1 \<Rightarrow>
                if \<not> fst (cand_AddVote vote c1) then (False, st1)
                else (True,
                      TryToFinalizeLockCandidate env (txHash vote)
                        (modify_candidate (txHash vote) (\<lambda>c. snd (cand_AddVote vote c)) st1))))"

definition ProcessTxLockVote_body ::
    "(CTxLockRequest \<Rightarrow> CDirectSend \<Rightarrow> (bool \<times> CDirectSend) option)
     \<Rightarrow> Env \<Rightarrow> CTxLockVote \<Rightarrow> CDirectSend \<Rightarrow> (bool \<times> CDirectSend) option" where
  "ProcessTxLockVote_body preq env vote st0 =
     (if \<not> vote_IsValid env vote then Some (False, vote_IsValid_effect env vote st0)
      else
        let st = emit (RelayInv (vote_GetHash vote)) st0
        in case sm_find (txHash vote) (mapTxLockCandidates st) of
             None \<Rightarrow> ProcessTxLockVote_orphan preq env vote st
           | Some txLockCandidate \<Rightarrow>
               if txLockRequest txLockCandidate = None
               then ProcessTxLockVote_orphan preq env vote st
               else Some (ProcessTxLockVote_attach env vote txLockCandidate st))"

text \<open>
  The loop of \<^verbatim>\<open>ProcessOrphanTxLockVotes\<close>, over the keys the orphan map had when the
  loop started; an entry erased in the meantime is passed over.
\<close>

fun ProcessOrphanTxLockVotes_loop ::
    "(CTxLockVote \<Rightarrow> CDirectSend \<Rightarrow> (bool \<times> CDirectSend) option)
     \<Rightarrow> VoteHash list \<Rightarrow> CDirectSend \<Rightarrow> CDirectSend option" where
  "ProcessOrphanTxLockVotes_loop pvote [] st = Some st"
| "ProcessOrphanTxLockVotes_loop pvote (h # rest) st =
     (case sm_find h (mapTxLockVotesOrphan st) of
        None \<Rightarrow> ProcessOrphanTxLockVotes_loop pvote rest st
      | Some vote \<Rightarrow>
          (case pvote vote st of
             None \<Rightarrow> None
           | Some res \<Rightarrow>
               if fst res
               then ProcessOrphanTxLockVotes_loop pvote rest
                      ((snd res)\<lparr>mapTxLockVotesOrphan := sm_erase h (mapTxLockVotesOrphan (snd res))\<rparr>)
               else ProcessOrphanTxLockVotes_loop pvote rest (snd res)))"

definition ProcessOrphanTxLockVotes ::
    "(CTxLockVote \<Rightarrow> CDirectSend \<Rightarrow> (bool \<times> CDirectSend) option)
     \<Rightarrow> CDirectSend \<Rightarrow> CDirectSend option" where
  "ProcessOrphanTxLockVotes pvote st =
     ProcessOrphanTxLockVotes_loop pvote (sm_keys (mapTxLockVotesOrphan st)) st"

definition ProcessTxLockRequest_body ::
    "(CTxLockVote \<Rightarrow> CDirectSend \<Rightarrow> (bool \<times> CDirectSend) option)
     \<Rightarrow> Env \<Rightarrow> CTxLockRequest \<Rightarrow> CDirectSend \<Rightarrow> (bool \<times> CDirectSend) option" where
  "ProcessTxLockRequest_body pvote env req st =
     (case CreateTxLockCandidate env req st of
        (False, st1) \<Rightarrow> Some (False, st1)
      | (True, st1) \<Rightarrow>
          (case ProcessOrphanTxLockVotes pvote (Vote env (GetHash req) st1) of
             None \<Rightarrow> None
           | Some st3 \<Rightarrow> Some (True, TryToFinalizeLockCandidate env (GetHash req) st3)))"

primrec ProcessTxLockVote_depth ::
    "nat \<Rightarrow> Env \<Rightarrow> CTxLockVote \<Rightarrow> CDirectSend \<Rightarrow> (bool \<times> CDirectSend) option" where
  "ProcessTxLockVote_depth 0 env vote st = None"
| "ProcessTxLockVote_depth (Suc n) env vote st =
     ProcessTxLockVote_body
       (ProcessTxLockRequest_body (ProcessTxLockVote_depth n env) env) env vote st"

text \<open>
  A vote taken from the orphan map never re-enters \<^verbatim>\<open>ProcessTxLockRequest\<close> (it is in
  the orphan map), so the chain of calls is at most vote, request, vote: depth 2 from a
  vote, and from a request the votes run at depth 1.
\<close>

definition ProcessTxLockVote :: "Env \<Rightarrow> CTxLockVote \<Rightarrow> CDirectSend \<Rightarrow> (bool \<times> CDirectSend) option" where
  "ProcessTxLockVote env vote st = ProcessTxLockVote_depth 2 env vote st"

definition ProcessTxLockRequest ::
    "Env \<Rightarrow> CTxLockRequest \<Rightarrow> CDirectSend \<Rightarrow> (bool \<times> CDirectSend) option" where
  "ProcessTxLockRequest env req st =
     ProcessTxLockRequest_body (ProcessTxLockVote_depth 1 env) env req st"

text \<open>
  \<^verbatim>\<open>ProcessMessage\<close> for a \<^verbatim>\<open>TXLOCKVOTE\<close> message: \<open>nVersion\<close> is the peer's protocol
  version, \<open>vote\<close> the vote as deserialised. Any other command leaves the engine alone.
\<close>

datatype NetMsg = TXLOCKVOTE CTxLockVote | OtherCommand

definition ProcessMessage :: "Env \<Rightarrow> int \<Rightarrow> NetMsg \<Rightarrow> CDirectSend \<Rightarrow> CDirectSend option" where
  "ProcessMessage env nVersion msg st =
     (if fLiteMode env then Some st
      else if \<not> SPORK_2_DIRECTSEND_ENABLED env then Some st
      else if \<not> IsMasternodeListSynced env then Some st
      else case msg of
             OtherCommand \<Rightarrow> Some st
           | TXLOCKVOTE vote \<Rightarrow>
               if nVersion < MIN_DIRECTSEND_PROTO_VERSION env then Some st
               else if sm_count (vote_GetHash vote) (mapTxLockVotes st) then Some st
               else (case ProcessTxLockVote env vote
                            (st\<lparr>mapTxLockVotes :=
                                  sm_insert (vote_GetHash vote) vote (mapTxLockVotes st)\<rparr>) of
                       None \<Rightarrow> None
                     | Some res \<Rightarrow> Some (snd res)))"

subsection \<open>The well-formedness conditions of a request, as listed in the specification\<close>








subsection \<open>Example data\<close>

text \<open>
  A small network used to run the engine on concrete inputs. The constants take the
  values the specification quotes (6 of 10 signatures, 15 and 60 seconds, 6 blocks). The
  masternodes are the outpoints \<open>(n, 0)\<close> with \<open>n \<ge> 100\<close>, masternode \<open>(n, 0)\<close> has rank
  \<open>n - 99\<close> and public key \<open>n\<close>, and a signature verifies under key \<open>n\<close> iff it is
  \<open>[n]\<close>. The coins are the outpoints with hash below 50, each worth one \<open>COIN\<close> and
  created at height 10; the chain is at height 100 and the clock at 1000.
\<close>

definition example_env :: Env where
  "example_env =
     \<lparr>fLiteMode = False, SPORK_2_DIRECTSEND_ENABLED = True,
      SPORK_3_DIRECTSEND_BLOCK_FILTERING = True, SPORK_5_DIRECTSEND_MAX_VALUE = 1000,
      IsMasternodeListSynced = True, fEnableDirectSend = True, fLargeWorkForkFound = False,
      fLargeWorkInvalidChainFound = False, fDIP0001ActiveAtTip = False, fMasterNode = False,
      activeMasternode_outpoint = (0, 0), activeMasternode_pubKey = 0,
      SignMessage = (\<lambda>m. None), VerifyMessage = (\<lambda>pk sig m. sig = [pk]),
      GetTime = 1000, chainActive_Height = 100,
      GetUTXOCoins = (\<lambda>prevout. if fst prevout < 50
                                 then Some \<lparr>coin_nHeight = 10, coin_nValue = 100000000\<rparr>
                                 else None),
      CheckFinalTx = (\<lambda>req. True), mempool_mapNextTx = (\<lambda>prevout. None),
      GetTransaction_inBlock = (\<lambda>h. False), mnodeman_Has = (\<lambda>mn. fst mn \<ge> 100),
      mnodeman_GetMasternodeRank =
        (\<lambda>mn h. if fst mn \<ge> 100 then Some (int (fst mn) - 99) else None),
      mnodeman_GetMasternodeInfo = (\<lambda>mn. if fst mn \<ge> 100 then Some (fst mn) else None),
      wallet_UpdatedTransaction = (\<lambda>h. True),
      uint256_ToString = (\<lambda>h. ''h''), ToStringShort = (\<lambda>prevout. ''o''),
      SIGNATURES_REQUIRED = 6, SIGNATURES_TOTAL = 10, MIN_FEE = 10000, COIN = 100000000,
      DIRECTSEND_CONFIRMATIONS_REQUIRED = 6, DIRECTSEND_LOCK_TIMEOUT_SECONDS = 15,
      DIRECTSEND_FAILED_TIMEOUT_SECONDS = 60, nDirectSendKeepLock = 6,
      MIN_DIRECTSEND_PROTO_VERSION = 70208\<rparr>"

definition empty_engine :: CDirectSend where
  "empty_engine =
     \<lparr>nCachedBlockHeight = 100, mapLockRequestAccepted = [], mapLockRequestRejected = [],
      mapTxLockVotes = [], mapTxLockVotesOrphan = [], mapTxLockCandidates = [],
      mapVotedOutpoints = [], mapLockedOutpoints = [], mapMasternodeOrphanVotes = [],
      nCompleteTXLocks = 0, events = []\<rparr>"

text \<open>The vote of masternode \<open>(mn, 0)\<close> for input \<open>(h, 0)\<close> of transaction \<open>t\<close>, made at 1000.\<close>

definition example_vote :: "uint256 \<Rightarrow> nat \<Rightarrow> nat \<Rightarrow> CTxLockVote" where
  "example_vote t h mn =
     \<lparr>txHash = t, outpoint = (h, 0), outpointMasternode = (mn, 0),
      vchMasternodeSignature = [mn], nConfirmedHeight = -1, nTimeCreated = 1000\<rparr>"

text \<open>Transaction \<open>t\<close> spending the coins \<open>ins\<close> and paying \<open>v\<close> to a normal script.\<close>

definition example_request :: "uint256 \<Rightarrow> COutPoint list \<Rightarrow> CAmount \<Rightarrow> CTxLockRequest" where
  "example_request t ins v =
     \<lparr>GetHash = t, vin = ins,
      vout = [\<lparr>nValue = v, IsNormalPaymentScript = True, IsUnspendable = False\<rparr>]\<rparr>"

text \<open>
  The engine after a request for transaction 7 spending coin \<open>(1, 0)\<close>, the inclusion of
  that transaction in a block at height 90, and then the vote of masternode \<open>(100, 0)\<close>.
\<close>

definition late_vote_candidate :: CTxLockCandidate where
  "late_vote_candidate =
     \<lparr>txLockRequest = Some (example_request 7 [(1, 0)] 99990000),
      mapOutPointLocks =
        [((1, 0), \<lparr>lock_outpoint = (1, 0),
                    mapMasternodeVotes = [((100, 0), example_vote 7 1 100)],
                    fAttacked = False\<rparr>)],
      cand_nConfirmedHeight = 90, cand_nTimeCreated = 1000\<rparr>"

definition late_vote_engine :: CDirectSend where
  "late_vote_engine =
     \<lparr>nCachedBlockHeight = 100, mapLockRequestAccepted = [], mapLockRequestRejected = [],
      mapTxLockVotes = [(vote_GetHash (example_vote 7 1 100), example_vote 7 1 100)],
      mapTxLockVotesOrphan = [],
      mapTxLockCandidates = [(7, late_vote_candidate)],
      mapVotedOutpoints = [((1, 0), [7])], mapLockedOutpoints = [],
      mapMasternodeOrphanVotes = [], nCompleteTXLocks = 0,
      events = [RelayInv (vote_GetHash (example_vote 7 1 100))]\<rparr>"

subsection \<open>Notions used to state the properties\<close>

text \<open>
  The hashes among \<open>hashes\<close> (the set voted for the vote's outpoint) that belong to
  another candidate in which the vote's masternode has already voted on that outpoint;
  the outpoint lock of a candidate; whether that lock is marked attacked.
\<close>

definition conflicting_hashes :: "CTxLockVote \<Rightarrow> CDirectSend \<Rightarrow> uint256 list \<Rightarrow> uint256 list" where
  "conflicting_hashes vote st hashes =
     filter (\<lambda>hash. hash \<noteq> txHash vote
                    \<and> (case sm_find hash (mapTxLockCandidates st) of
                          None \<Rightarrow> False
                        | Some c2 \<Rightarrow>
                            cand_HasMasternodeVoted c2 (outpoint vote) (outpointMasternode vote)))
       hashes"

definition find_lock :: "CDirectSend \<Rightarrow> uint256 \<Rightarrow> COutPoint \<Rightarrow> COutPointLock option" where
  "find_lock st hash outpointIn =
     (case sm_find hash (mapTxLockCandidates st) of
        None \<Rightarrow> None
      | Some c \<Rightarrow> sm_find outpointIn (mapOutPointLocks c))"

definition outpoint_attacked :: "CDirectSend \<Rightarrow> uint256 \<Rightarrow> COutPoint \<Rightarrow> bool" where
  "outpoint_attacked st hash outpointIn =
     (case find_lock st hash outpointIn of None \<Rightarrow> False | Some l \<Rightarrow> fAttacked l)"


subsection \<open>Example runs\<close>

text \<open>
  Requests and vote messages fed to the engine one after the other. \<open>later_env\<close> is
  the example network after its masternode list has changed: now the masternodes
  \<open>(110, 0)\<close>, \<open>(111, 0)\<close>, and so on hold the ranks 1, 2, and so on. \<open>mempool_env\<close> has in
  addition a mempool transaction 10 spending coin \<open>(2, 0)\<close>.

  \<open>locked_engine\<close>: transaction 7 spends coin \<open>(1, 0)\<close> and is locked by six votes.
  \<open>rival_engine\<close>: on top of that, transaction 8 spends the same coin and has five
  votes of the later masternodes; in \<open>rival_ready_engine\<close> the sixth is attached.
  \<open>two_input_engine\<close>: transaction 9 spends the coins \<open>(2, 0)\<close> and \<open>(1, 0)\<close> and has
  six votes on each, the last one arriving when the mempool spends \<open>(2, 0)\<close>.
  \<open>equivocation_engine\<close>: the transactions 7, 8 and 9 all spend coin \<open>(1, 0)\<close>, and
  masternode \<open>(100, 0)\<close> has voted for it in 7 and in 8.
\<close>

definition feed_request :: "Env \<Rightarrow> CTxLockRequest \<Rightarrow> CDirectSend \<Rightarrow> CDirectSend" where
  "feed_request env req st =
     (case ProcessTxLockRequest env req st of None \<Rightarrow> st | Some r \<Rightarrow> snd r)"

definition feed_votes :: "Env \<Rightarrow> CTxLockVote list \<Rightarrow> CDirectSend \<Rightarrow> CDirectSend" where
  "feed_votes env votes st =
     fold (\<lambda>vote s. case ProcessMessage env 70208 (TXLOCKVOTE vote) s of
                       None \<Rightarrow> s | Some s' \<Rightarrow> s') votes st"

definition later_env :: Env where
  "later_env =
     example_env\<lparr>mnodeman_Has := (\<lambda>mn. fst mn \<ge> 110),
       mnodeman_GetMasternodeRank :=
         (\<lambda>mn h. if fst mn \<ge> 110 then Some (int (fst mn) - 109) else None)\<rparr>"

definition mempool_env :: Env where
  "mempool_env =
     later_env\<lparr>mempool_mapNextTx := (\<lambda>prevout. if prevout = (2, 0) then Some 10 else None)\<rparr>"

definition example_lock :: "uint256 \<Rightarrow> nat list \<Rightarrow> nat \<Rightarrow> COutPoint \<times> COutPointLock" where
  "example_lock t mns h =
     ((h, 0), \<lparr>lock_outpoint = (h, 0),
               mapMasternodeVotes = map (\<lambda>mn. ((mn, 0), example_vote t h mn)) mns,
               fAttacked = False\<rparr>)"

definition example_candidate :: "uint256 \<Rightarrow> nat list \<Rightarrow> CAmount \<Rightarrow> nat list \<Rightarrow> CTxLockCandidate" where
  "example_candidate t hs v mns =
     \<lparr>txLockRequest = Some (example_request t (map (\<lambda>h. (h, 0)) hs) v),
      mapOutPointLocks = map (example_lock t mns) hs,
      cand_nConfirmedHeight = -1, cand_nTimeCreated = 1000\<rparr>"

definition locked_engine :: CDirectSend where
  "locked_engine =
     feed_votes example_env (map (example_vote 7 1) [100, 101, 102, 103, 104, 105])
       (feed_request example_env (example_request 7 [(1, 0)] 99990000) empty_engine)"

definition rival_engine :: CDirectSend where
  "rival_engine =
     feed_votes later_env (map (example_vote 8 1) [110, 111, 112, 113, 114])
       (feed_request later_env (example_request 8 [(1, 0)] 99990000) locked_engine)"

definition rival_ready_engine :: CDirectSend where
  "rival_ready_engine =
     modify_candidate 8 (\<lambda>c. snd (cand_AddVote (example_vote 8 1 115) c)) rival_engine"

definition two_input_engine :: CDirectSend where
  "two_input_engine =
     feed_votes mempool_env [example_vote 9 1 115]
       (feed_votes later_env
          (map (example_vote 9 2) [110, 111, 112, 113, 114, 115]
           @ map (example_vote 9 1) [110, 111, 112, 113, 114])
          (feed_request later_env (example_request 9 [(2, 0), (1, 0)] 199980000) locked_engine))"

definition equivocation_engine :: CDirectSend where
  "equivocation_engine =
     feed_votes example_env [example_vote 7 1 100, example_vote 8 1 100]
       (feed_request example_env (example_request 9 [(1, 0)] 99990000)
          (feed_request example_env (example_request 8 [(1, 0)] 99990000)
             (feed_request example_env (example_request 7 [(1, 0)] 99990000) empty_engine)))"

subsection \<open>Reachable engine states and the vote-map invariant\<close>

text \<open>
  The votes a lock holds from one masternode, the well-keyedness of the vote maps
  (distinct keys, each vote stored under its own masternode), and the states the engine
  reaches from an empty one through its public operations.
\<close>

definition votes_of_signer :: "COutPointLock \<Rightarrow> COutPoint \<Rightarrow> (COutPoint \<times> CTxLockVote) list" where
  "votes_of_signer l mn = filter (\<lambda>e. outpointMasternode (snd e) = mn) (mapMasternodeVotes l)"

definition lock_ok :: "COutPointLock \<Rightarrow> bool" where
  "lock_ok l = (distinct (map fst (mapMasternodeVotes l))
                \<and> list_all (\<lambda>e. outpointMasternode (snd e) = fst e) (mapMasternodeVotes l))"

definition cand_ok :: "CTxLockCandidate \<Rightarrow> bool" where
  "cand_ok c = list_all (\<lambda>e. lock_ok (snd e)) (mapOutPointLocks c)"

definition votes_keyed :: "CDirectSend \<Rightarrow> bool" where
  "votes_keyed st = list_all (\<lambda>e. cand_ok (snd e)) (mapTxLockCandidates st)"

definition engine_init :: "int \<Rightarrow> CDirectSend" where
  "engine_init h =
     \<lparr>nCachedBlockHeight = h, mapLockRequestAccepted = [], mapLockRequestRejected = [],
      mapTxLockVotes = [], mapTxLockVotesOrphan = [], mapTxLockCandidates = [],
      mapVotedOutpoints = [], mapLockedOutpoints = [], mapMasternodeOrphanVotes = [],
      nCompleteTXLocks = 0, events = []\<rparr>"

inductive reachable :: "CDirectSend \<Rightarrow> bool" where
  reachable_init: "reachable (engine_init h)"
| reachable_ProcessMessage:
    "reachable st \<Longrightarrow> ProcessMessage env nVersion msg st = Some st' \<Longrightarrow> reachable st'"
| reachable_ProcessTxLockRequest:
    "reachable st \<Longrightarrow> ProcessTxLockRequest env req st = Some r \<Longrightarrow> reachable (snd r)"
| reachable_CheckAndRemove: "reachable st \<Longrightarrow> reachable (CheckAndRemove env st)"
| reachable_UpdatedBlockTip: "reachable st \<Longrightarrow> reachable (UpdatedBlockTip h st)"
| reachable_SyncTransaction:
    "reachable st \<Longrightarrow> reachable (SyncTransaction env IsCoinBase t pblock st)"
| reachable_AcceptLockRequest: "reachable st \<Longrightarrow> reachable (AcceptLockRequest req st)"
| reachable_RejectLockRequest: "reachable st \<Longrightarrow> reachable (RejectLockRequest req st)"

text \<open>Every orphan vote is stored under its own hash.\<close>

definition wf_orphans :: "CDirectSend \<Rightarrow> bool" where
  "wf_orphans st = list_all (\<lambda>e. fst e = vote_GetHash (snd e)) (mapTxLockVotesOrphan st)"

section \<open>Properties\<close>

subsection \<open>Association lists\<close>

lemma keys_sm_insert [simp]: "fst ` set (sm_insert k v m) = insert k (fst ` set m)"
  by (induction k v m rule: sm_insert.induct) (simp_all add: insert_commute)

lemma sm_count_insert [simp]: "sm_count k' (sm_insert k v m) = (k' = k \<or> sm_count k' m)"
  by (simp add: sm_count_def)

lemma sm_find_insert_new: "\<not> sm_count k m \<Longrightarrow> sm_find k (sm_insert k v m) = Some v"
  by (induction m) (auto simp: sm_count_def sm_find_def)

subsection \<open>The orphan-vote average\<close>





subsection \<open>Validity of a vote\<close>

text \<open>
  Claim C5. \<^verbatim>\<open>CTxLockVote::IsValid\<close> holds exactly when the signer is in the
  masternode registry, the coin of the voted outpoint resolves, the signer has a rank at
  the coin's height plus 4 and that rank is at most \<^verbatim>\<open>SIGNATURES_TOTAL\<close>, and the
  signature over the transaction hash's string followed by the outpoint's short string
  verifies under the signer's registry key.
\<close>

theorem vote_IsValid_iff:
  "vote_IsValid env vote \<longleftrightarrow>
     mnodeman_Has env (outpointMasternode vote)
     \<and> (\<exists>coins. GetUTXOCoins env (outpoint vote) = Some coins
          \<and> (\<exists>nRank. mnodeman_GetMasternodeRank env (outpointMasternode vote)
                         (coin_nHeight coins + 4) = Some nRank
                \<and> nRank \<le> SIGNATURES_TOTAL env))
     \<and> (\<exists>pubKeyMasternode.
            mnodeman_GetMasternodeInfo env (outpointMasternode vote) = Some pubKeyMasternode
          \<and> VerifyMessage env pubKeyMasternode (vchMasternodeSignature vote)
               (uint256_ToString env (txHash vote) @ ToStringShort env (outpoint vote)))"
  by (auto simp: vote_IsValid_def CheckSignature_def Let_def split: option.splits)

theorem vote_IsValid_iff_witness:
  "vote_IsValid example_env (example_vote 7 1 100)
   \<and> \<not> vote_IsValid example_env (example_vote 7 1 110)
   \<and> \<not> vote_IsValid example_env ((example_vote 7 1 100)\<lparr>vchMasternodeSignature := []\<rparr>)"
  using vote_IsValid_iff [of example_env "example_vote 7 1 100"]
    vote_IsValid_iff [of example_env "example_vote 7 1 110"]
    vote_IsValid_iff [of example_env "(example_vote 7 1 100)\<lparr>vchMasternodeSignature := []\<rparr>"]
  by (simp add: example_env_def example_vote_def)

subsection \<open>Validity of a request\<close>








subsection \<open>An invalid vote stays known\<close>

lemma ProcessMessage_known:
  "sm_count (vote_GetHash vote) (mapTxLockVotes st) \<Longrightarrow>
   ProcessMessage env nVersion (TXLOCKVOTE vote) st = Some st"
  by (simp add: ProcessMessage_def)

lemma ProcessTxLockVote_invalid:
  "\<not> vote_IsValid env vote \<Longrightarrow>
   ProcessTxLockVote env vote st = Some (False, vote_IsValid_effect env vote st)"
  by (simp add: ProcessTxLockVote_def numeral_2_eq_2 ProcessTxLockVote_body_def)

lemma vote_IsValid_effect_fields [simp]:
  "mapTxLockVotes (vote_IsValid_effect env vote st) = mapTxLockVotes st"
  "mapTxLockCandidates (vote_IsValid_effect env vote st) = mapTxLockCandidates st"
  by (simp_all add: vote_IsValid_effect_def emit_def)

text \<open>
  Claim C9. A vote message whose hash is new is inserted into \<^verbatim>\<open>mapTxLockVotes\<close>
  before \<^verbatim>\<open>ProcessTxLockVote\<close> validates it. If it is invalid,
  \<^verbatim>\<open>ProcessTxLockVote\<close> returns false, the vote is stored all the same, no candidate
  has changed, and a later message with the same vote hash is dropped with the engine
  unchanged, whatever the environment is by then.
\<close>

theorem invalid_vote_stays_known:
  assumes gates: "\<not> fLiteMode env" "SPORK_2_DIRECTSEND_ENABLED env" "IsMasternodeListSynced env"
      "nVersion \<ge> MIN_DIRECTSEND_PROTO_VERSION env"
    and new: "\<not> sm_count (vote_GetHash vote) (mapTxLockVotes st)"
    and invalid: "\<not> vote_IsValid env vote"
    and same: "vote_GetHash vote' = vote_GetHash vote"
  shows "\<exists>st'. ProcessMessage env nVersion (TXLOCKVOTE vote) st = Some st'
           \<and> ProcessTxLockVote env vote
                (st\<lparr>mapTxLockVotes := sm_insert (vote_GetHash vote) vote (mapTxLockVotes st)\<rparr>)
               = Some (False, st')
           \<and> sm_find (vote_GetHash vote) (mapTxLockVotes st') = Some vote
           \<and> mapTxLockCandidates st' = mapTxLockCandidates st
           \<and> ProcessMessage env' nVersion' (TXLOCKVOTE vote') st' = Some st'"
proof -
  let ?st1 = "st\<lparr>mapTxLockVotes := sm_insert (vote_GetHash vote) vote (mapTxLockVotes st)\<rparr>"
  let ?st' = "vote_IsValid_effect env vote ?st1"
  have pv: "ProcessTxLockVote env vote ?st1 = Some (False, ?st')"
    using invalid by (rule ProcessTxLockVote_invalid)
  have pm: "ProcessMessage env nVersion (TXLOCKVOTE vote) st = Some ?st'"
    using gates new pv by (simp add: ProcessMessage_def)
  have f: "sm_find (vote_GetHash vote) (mapTxLockVotes ?st') = Some vote"
    using new by (simp add: sm_find_insert_new)
  have again: "ProcessMessage env' nVersion' (TXLOCKVOTE vote') ?st' = Some ?st'"
    by (rule ProcessMessage_known) (simp add: same)
  show ?thesis using pm pv f again by (intro exI[of _ ?st']) simp
qed

theorem invalid_vote_stays_known_witness:
  "\<not> vote_IsValid example_env (example_vote 7 1 110)
   \<and> vote_IsValid (example_env\<lparr>SIGNATURES_TOTAL := 20\<rparr>) (example_vote 7 1 110)
   \<and> ProcessMessage example_env 70208 (TXLOCKVOTE (example_vote 7 1 110)) empty_engine
       = Some (empty_engine\<lparr>mapTxLockVotes :=
                 [(vote_GetHash (example_vote 7 1 110), example_vote 7 1 110)]\<rparr>)
   \<and> ProcessMessage (example_env\<lparr>SIGNATURES_TOTAL := 20\<rparr>) 70208
         (TXLOCKVOTE (example_vote 7 1 110))
         (empty_engine\<lparr>mapTxLockVotes :=
            [(vote_GetHash (example_vote 7 1 110), example_vote 7 1 110)]\<rparr>)
       = Some (empty_engine\<lparr>mapTxLockVotes :=
                 [(vote_GetHash (example_vote 7 1 110), example_vote 7 1 110)]\<rparr>)"
proof -
  let ?v = "example_vote 7 1 110"
  let ?env2 = "example_env\<lparr>SIGNATURES_TOTAL := 20\<rparr>"
  let ?st' = "empty_engine\<lparr>mapTxLockVotes := [(vote_GetHash ?v, ?v)]\<rparr>"
  have inv: "\<not> vote_IsValid example_env ?v"
    by (simp add: example_env_def example_vote_def vote_IsValid_def)
  have val: "vote_IsValid ?env2 ?v"
    by (simp add: example_env_def example_vote_def vote_IsValid_def CheckSignature_def)
  have new: "\<not> sm_count (vote_GetHash ?v) (mapTxLockVotes empty_engine)"
    by (simp add: empty_engine_def sm_count_def)
  have gates: "\<not> fLiteMode example_env" "SPORK_2_DIRECTSEND_ENABLED example_env"
      "IsMasternodeListSynced example_env" "70208 \<ge> MIN_DIRECTSEND_PROTO_VERSION example_env"
    by (simp_all add: example_env_def)
  from invalid_vote_stays_known [OF gates new inv refl, of ?env2 70208]
  obtain st' where pm: "ProcessMessage example_env 70208 (TXLOCKVOTE ?v) empty_engine = Some st'"
    and pv: "ProcessTxLockVote example_env ?v
               (empty_engine\<lparr>mapTxLockVotes :=
                  sm_insert (vote_GetHash ?v) ?v (mapTxLockVotes empty_engine)\<rparr>) = Some (False, st')"
    and again: "ProcessMessage ?env2 70208 (TXLOCKVOTE ?v) st' = Some st'"
    by blast
  have "ProcessTxLockVote example_env ?v
               (empty_engine\<lparr>mapTxLockVotes :=
                  sm_insert (vote_GetHash ?v) ?v (mapTxLockVotes empty_engine)\<rparr>) = Some (False, ?st')"
    using inv
    by (simp add: ProcessTxLockVote_invalid vote_IsValid_effect_def)
       (simp add: example_env_def example_vote_def empty_engine_def)
  with pv have "st' = ?st'" by simp
  with pm again inv val show ?thesis by simp
qed

subsection \<open>The sweep of \<^verbatim>\<open>CheckAndRemove\<close>\<close>

lemma sm_count_erase [simp]: "sm_count k' (sm_erase k m) = (k' \<noteq> k \<and> sm_count k' m)"
  by (induction m) (auto simp: sm_count_def sm_erase_def)

lemma set_sm_erase: "set (sm_erase k m) \<subseteq> set m"
  by (auto simp: sm_erase_def)

lemma sm_count_fold_erase [simp]:
  "sm_count k (fold sm_erase ks m) = (k \<notin> set ks \<and> sm_count k m)"
  by (induction ks arbitrary: m) auto

lemma set_fold_sm_erase: "set (fold sm_erase ks m) \<subseteq> set m"
proof (induction ks arbitrary: m)
  case Nil
  show ?case by simp
next
  case (Cons k ks)
  have "set (fold sm_erase ks (sm_erase k m)) \<subseteq> set (sm_erase k m)" by (rule Cons.IH)
  also have "\<dots> \<subseteq> set m" by (rule set_sm_erase)
  finally show ?case by simp
qed

lemma sm_find_None_iff: "sm_find k m = None \<longleftrightarrow> \<not> sm_count k m"
  by (simp add: sm_find_def sm_count_def map_of_eq_None_iff)

lemma sm_count_mono: "set m \<subseteq> set m' \<Longrightarrow> sm_count k m \<Longrightarrow> sm_count k m'"
  by (auto simp: sm_count_def)

text \<open>The first GC loop.\<close>

lemma remove_expired_candidate_height [simp]:
  "nCachedBlockHeight (remove_expired_candidate env e st) = nCachedBlockHeight st"
  by (simp add: remove_expired_candidate_def Let_def)

lemma remove_expired_candidate_others [simp]:
  "mapTxLockVotes (remove_expired_candidate env e st) = mapTxLockVotes st"
  "mapTxLockVotesOrphan (remove_expired_candidate env e st) = mapTxLockVotesOrphan st"
  "mapMasternodeOrphanVotes (remove_expired_candidate env e st) = mapMasternodeOrphanVotes st"
  "events (remove_expired_candidate env e st) = events st"
  "nCompleteTXLocks (remove_expired_candidate env e st) = nCompleteTXLocks st"
  by (simp_all add: remove_expired_candidate_def Let_def)

lemma remove_expired_candidate_shrinks:
  "set (mapTxLockCandidates (remove_expired_candidate env e st)) \<subseteq> set (mapTxLockCandidates st)"
  "set (mapLockedOutpoints (remove_expired_candidate env e st)) \<subseteq> set (mapLockedOutpoints st)"
  "set (mapVotedOutpoints (remove_expired_candidate env e st)) \<subseteq> set (mapVotedOutpoints st)"
  "set (mapLockRequestAccepted (remove_expired_candidate env e st)) \<subseteq> set (mapLockRequestAccepted st)"
  "set (mapLockRequestRejected (remove_expired_candidate env e st)) \<subseteq> set (mapLockRequestRejected st)"
  by (simp_all add: remove_expired_candidate_def Let_def set_sm_erase set_fold_sm_erase)

lemma fold_remove_expired_height [simp]:
  "nCachedBlockHeight (fold (remove_expired_candidate env) es st) = nCachedBlockHeight st"
  by (induction es arbitrary: st) simp_all

lemma fold_remove_expired_others [simp]:
  "mapTxLockVotes (fold (remove_expired_candidate env) es st) = mapTxLockVotes st"
  "mapTxLockVotesOrphan (fold (remove_expired_candidate env) es st) = mapTxLockVotesOrphan st"
  "mapMasternodeOrphanVotes (fold (remove_expired_candidate env) es st) = mapMasternodeOrphanVotes st"
  "events (fold (remove_expired_candidate env) es st) = events st"
  "nCompleteTXLocks (fold (remove_expired_candidate env) es st) = nCompleteTXLocks st"
  by (induction es arbitrary: st) simp_all

lemma fold_remove_expired_shrinks:
  "set (mapTxLockCandidates (fold (remove_expired_candidate env) es st)) \<subseteq> set (mapTxLockCandidates st)"
  "set (mapLockedOutpoints (fold (remove_expired_candidate env) es st)) \<subseteq> set (mapLockedOutpoints st)"
  "set (mapVotedOutpoints (fold (remove_expired_candidate env) es st)) \<subseteq> set (mapVotedOutpoints st)"
  "set (mapLockRequestAccepted (fold (remove_expired_candidate env) es st)) \<subseteq> set (mapLockRequestAccepted st)"
  "set (mapLockRequestRejected (fold (remove_expired_candidate env) es st)) \<subseteq> set (mapLockRequestRejected st)"
proof (induction es arbitrary: st)
  case Nil
  { case 1 show ?case by simp next
    case 2 show ?case by simp next
    case 3 show ?case by simp next
    case 4 show ?case by simp next
    case 5 show ?case by simp }
next
  case (Cons e es)
  { case 1 show ?case using Cons.IH(1)[of "remove_expired_candidate env e st"]
        remove_expired_candidate_shrinks(1)[of env e st] by auto
  next
    case 2 show ?case using Cons.IH(2)[of "remove_expired_candidate env e st"]
        remove_expired_candidate_shrinks(2)[of env e st] by auto
  next
    case 3 show ?case using Cons.IH(3)[of "remove_expired_candidate env e st"]
        remove_expired_candidate_shrinks(3)[of env e st] by auto
  next
    case 4 show ?case using Cons.IH(4)[of "remove_expired_candidate env e st"]
        remove_expired_candidate_shrinks(4)[of env e st] by auto
  next
    case 5 show ?case using Cons.IH(5)[of "remove_expired_candidate env e st"]
        remove_expired_candidate_shrinks(5)[of env e st] by auto }
qed

lemma remove_expired_candidate_removes:
  assumes "cand_IsExpired env (snd e) (nCachedBlockHeight st)"
  shows "\<not> sm_count (fst e) (mapTxLockCandidates (remove_expired_candidate env e st))"
    and "\<forall>outp \<in> set (sm_keys (mapOutPointLocks (snd e))).
           \<not> sm_count outp (mapLockedOutpoints (remove_expired_candidate env e st))
           \<and> \<not> sm_count outp (mapVotedOutpoints (remove_expired_candidate env e st))"
    and "\<not> sm_count (cand_GetHash (snd e)) (mapLockRequestAccepted (remove_expired_candidate env e st))"
    and "\<not> sm_count (cand_GetHash (snd e)) (mapLockRequestRejected (remove_expired_candidate env e st))"
  using assms by (simp_all add: remove_expired_candidate_def Let_def)

lemma fold_remove_expired_removes:
  assumes "e \<in> set es" and "cand_IsExpired env (snd e) (nCachedBlockHeight st)"
  shows "\<not> sm_count (fst e) (mapTxLockCandidates (fold (remove_expired_candidate env) es st))
    \<and> (\<forall>outp \<in> set (sm_keys (mapOutPointLocks (snd e))).
           \<not> sm_count outp (mapLockedOutpoints (fold (remove_expired_candidate env) es st))
           \<and> \<not> sm_count outp (mapVotedOutpoints (fold (remove_expired_candidate env) es st)))
    \<and> \<not> sm_count (cand_GetHash (snd e)) (mapLockRequestAccepted (fold (remove_expired_candidate env) es st))
    \<and> \<not> sm_count (cand_GetHash (snd e)) (mapLockRequestRejected (fold (remove_expired_candidate env) es st))"
  using assms
proof (induction es arbitrary: st)
  case Nil
  then show ?case by simp
next
  case (Cons a es)
  let ?st1 = "remove_expired_candidate env a st"
  show ?case
  proof (cases "e = a")
    case True
    note rm = remove_expired_candidate_removes[of env e st, OF Cons.prems(2)]
    note sh = fold_remove_expired_shrinks[of env es ?st1]
    show ?thesis
      using rm sh True by (auto dest: sm_count_mono)
  next
    case False
    then have "e \<in> set es" using Cons.prems(1) by simp
    moreover have "cand_IsExpired env (snd e) (nCachedBlockHeight ?st1)"
      using Cons.prems(2) by simp
    ultimately show ?thesis using Cons.IH[of ?st1] by simp
  qed
qed


lemma remove_expired_candidates_facts:
  "nCachedBlockHeight (remove_expired_candidates env st) = nCachedBlockHeight st"
  "mapTxLockVotes (remove_expired_candidates env st) = mapTxLockVotes st"
  "mapTxLockVotesOrphan (remove_expired_candidates env st) = mapTxLockVotesOrphan st"
  "set (mapTxLockCandidates (remove_expired_candidates env st)) \<subseteq> set (mapTxLockCandidates st)"
  "set (mapLockedOutpoints (remove_expired_candidates env st)) \<subseteq> set (mapLockedOutpoints st)"
  by (simp_all add: remove_expired_candidates_def fold_remove_expired_shrinks)

lemma remove_timed_out_orphan_fields [simp]:
  "nCachedBlockHeight (remove_timed_out_orphan env e st) = nCachedBlockHeight st"
  "mapTxLockCandidates (remove_timed_out_orphan env e st) = mapTxLockCandidates st"
  "mapLockedOutpoints (remove_timed_out_orphan env e st) = mapLockedOutpoints st"
  "mapVotedOutpoints (remove_timed_out_orphan env e st) = mapVotedOutpoints st"
  "mapLockRequestAccepted (remove_timed_out_orphan env e st) = mapLockRequestAccepted st"
  "mapLockRequestRejected (remove_timed_out_orphan env e st) = mapLockRequestRejected st"
  "mapMasternodeOrphanVotes (remove_timed_out_orphan env e st) = mapMasternodeOrphanVotes st"
  "events (remove_timed_out_orphan env e st) = events st"
  "nCompleteTXLocks (remove_timed_out_orphan env e st) = nCompleteTXLocks st"
  by (simp_all add: remove_timed_out_orphan_def)

lemma remove_timed_out_orphan_votes:
  "set (mapTxLockVotes (remove_timed_out_orphan env e st)) \<subseteq> set (mapTxLockVotes st)"
  "set (mapTxLockVotesOrphan (remove_timed_out_orphan env e st)) \<subseteq> set (mapTxLockVotesOrphan st)"
  by (simp_all add: remove_timed_out_orphan_def set_sm_erase)

lemma fold_remove_timed_out_orphan_fields [simp]:
  "nCachedBlockHeight (fold (remove_timed_out_orphan env) es st) = nCachedBlockHeight st"
  "mapTxLockCandidates (fold (remove_timed_out_orphan env) es st) = mapTxLockCandidates st"
  "mapLockedOutpoints (fold (remove_timed_out_orphan env) es st) = mapLockedOutpoints st"
  "mapVotedOutpoints (fold (remove_timed_out_orphan env) es st) = mapVotedOutpoints st"
  "mapLockRequestAccepted (fold (remove_timed_out_orphan env) es st) = mapLockRequestAccepted st"
  "mapLockRequestRejected (fold (remove_timed_out_orphan env) es st) = mapLockRequestRejected st"
  "mapMasternodeOrphanVotes (fold (remove_timed_out_orphan env) es st) = mapMasternodeOrphanVotes st"
  "events (fold (remove_timed_out_orphan env) es st) = events st"
  "nCompleteTXLocks (fold (remove_timed_out_orphan env) es st) = nCompleteTXLocks st"
  by (induction es arbitrary: st) simp_all

lemma fold_remove_timed_out_orphan_votes:
  "set (mapTxLockVotes (fold (remove_timed_out_orphan env) es st)) \<subseteq> set (mapTxLockVotes st)"
proof (induction es arbitrary: st)
  case Nil
  show ?case by simp
next
  case (Cons e es)
  show ?case
    using Cons.IH[of "remove_timed_out_orphan env e st"]
      remove_timed_out_orphan_votes(1)[of env e st] by auto
qed

lemma fold_remove_timed_out_orphan_orphans:
  "set (mapTxLockVotesOrphan (fold (remove_timed_out_orphan env) es st)) \<subseteq> set (mapTxLockVotesOrphan st)"
proof (induction es arbitrary: st)
  case Nil
  show ?case by simp
next
  case (Cons e es)
  show ?case
    using Cons.IH[of "remove_timed_out_orphan env e st"]
      remove_timed_out_orphan_votes(2)[of env e st] by auto
qed

lemma IsLocked_no_candidate:
  "\<not> sm_count t (mapTxLockCandidates st) \<Longrightarrow> \<not> IsLockedDirectSendTransaction env st t"
  by (simp add: IsLockedDirectSendTransaction_def sm_find_None_iff[symmetric])

text \<open>What the whole sweep does to each map.\<close>

lemma CheckAndRemove_maps:
  assumes "IsMasternodeListSynced env"
  shows "mapTxLockCandidates (CheckAndRemove env st)
           = mapTxLockCandidates (remove_expired_candidates env st)"
    and "mapLockedOutpoints (CheckAndRemove env st)
           = mapLockedOutpoints (remove_expired_candidates env st)"
    and "mapVotedOutpoints (CheckAndRemove env st)
           = mapVotedOutpoints (remove_expired_candidates env st)"
    and "mapLockRequestAccepted (CheckAndRemove env st)
           = mapLockRequestAccepted (remove_expired_candidates env st)"
    and "mapLockRequestRejected (CheckAndRemove env st)
           = mapLockRequestRejected (remove_expired_candidates env st)"
    and "nCachedBlockHeight (CheckAndRemove env st) = nCachedBlockHeight st"
    and "events (CheckAndRemove env st) = events st"
    and "nCompleteTXLocks (CheckAndRemove env st) = nCompleteTXLocks st"
  using assms
  by (simp_all add: CheckAndRemove_def remove_timed_out_masternode_orphans_def
        remove_failed_votes_def remove_timed_out_orphans_def remove_expired_votes_def
        remove_expired_candidates_def)

lemma CheckAndRemove_votes:
  assumes "IsMasternodeListSynced env" and "e \<in> set (mapTxLockVotes (CheckAndRemove env st))"
  shows "e \<in> set (mapTxLockVotes st)"
    and "\<not> vote_IsExpired env (snd e) (nCachedBlockHeight st)"
    and "\<not> sm_count (txHash (snd e)) (mapTxLockCandidates (CheckAndRemove env st))
         \<Longrightarrow> GetTime env - nTimeCreated (snd e) \<le> DIRECTSEND_FAILED_TIMEOUT_SECONDS env"
proof -
  let ?s1 = "remove_expired_candidates env st"
  let ?s2 = "remove_expired_votes env ?s1"
  let ?s3 = "remove_timed_out_orphans env ?s2"
  have e4: "e \<in> set (filter (\<lambda>e. \<not> vote_IsFailed env ?s3 (snd e)) (mapTxLockVotes ?s3))"
    using assms
    by (simp add: CheckAndRemove_def remove_timed_out_masternode_orphans_def
          remove_failed_votes_def)
  then have nf: "\<not> vote_IsFailed env ?s3 (snd e)" and e3: "e \<in> set (mapTxLockVotes ?s3)"
    by simp_all
  from e3 have e2: "e \<in> set (mapTxLockVotes ?s2)"
    using fold_remove_timed_out_orphan_votes[of env "mapTxLockVotesOrphan ?s2" ?s2]
    by (auto simp: remove_timed_out_orphans_def)
  then have e1: "e \<in> set (mapTxLockVotes ?s1)"
    and ne: "\<not> vote_IsExpired env (snd e) (nCachedBlockHeight ?s1)"
    by (simp_all add: remove_expired_votes_def)
  from e1 show "e \<in> set (mapTxLockVotes st)"
    by (simp add: remove_expired_candidates_facts)
  from ne show "\<not> vote_IsExpired env (snd e) (nCachedBlockHeight st)"
    by (simp add: remove_expired_candidates_facts)
  have c3: "mapTxLockCandidates ?s3 = mapTxLockCandidates (CheckAndRemove env st)"
    using assms(1)
    by (simp add: CheckAndRemove_maps remove_timed_out_orphans_def remove_expired_votes_def)
  show "GetTime env - nTimeCreated (snd e) \<le> DIRECTSEND_FAILED_TIMEOUT_SECONDS env"
    if "\<not> sm_count (txHash (snd e)) (mapTxLockCandidates (CheckAndRemove env st))"
  proof -
    from that c3 have "\<not> IsLockedDirectSendTransaction env ?s3 (txHash (snd e))"
      by (intro IsLocked_no_candidate) simp
    with nf show ?thesis by (simp add: vote_IsFailed_def)
  qed
qed


lemma late_vote_engine_reached:
  "(case ProcessTxLockRequest example_env (example_request 7 [(1, 0)] 99990000) empty_engine of
      None \<Rightarrow> None
    | Some r \<Rightarrow>
        ProcessMessage example_env 70208 (TXLOCKVOTE (example_vote 7 1 100))
          (SyncTransaction example_env False 7 (BlockAtHeight 90) (snd r)))
   = Some late_vote_engine"
  by code_simp

text \<open>
  Claim C7, as stated, fails for the votes: a vote carries its own confirmed height,
  which only \<^verbatim>\<open>SyncTransaction\<close> sets. In \<open>late_vote_engine\<close> the candidate was
  confirmed at height 90 and the vote attached afterwards; at tip 100 the sweep evicts
  the candidate and keeps the vote in \<^verbatim>\<open>mapTxLockVotes\<close>.
\<close>

theorem CheckAndRemove_keeps_votes_counterexample:
  "sm_find 7 (mapTxLockCandidates late_vote_engine) = Some late_vote_candidate
   \<and> cand_nConfirmedHeight late_vote_candidate = 90
   \<and> sm_find (100, 0) (mapMasternodeVotes (snd (hd (mapOutPointLocks late_vote_candidate))))
       = Some (example_vote 7 1 100)
   \<and> \<not> sm_count 7
         (mapTxLockCandidates (CheckAndRemove example_env (UpdatedBlockTip 100 late_vote_engine)))
   \<and> sm_find (vote_GetHash (example_vote 7 1 100))
        (mapTxLockVotes (CheckAndRemove example_env (UpdatedBlockTip 100 late_vote_engine)))
       = Some (example_vote 7 1 100)"
  by code_simp

text \<open>
  Claim C7, amended. When the masternode list is synced, after \<^verbatim>\<open>UpdatedBlockTip(h)\<close>
  and \<^verbatim>\<open>CheckAndRemove\<close> every candidate with a confirmed height other than -1 and
  more than \<^verbatim>\<open>nDirectSendKeepLock\<close> below \<open>h\<close> is gone from
  \<^verbatim>\<open>mapTxLockCandidates\<close>, each of its outpoints is gone from
  \<^verbatim>\<open>mapLockedOutpoints\<close> and \<^verbatim>\<open>mapVotedOutpoints\<close>, its hash is gone from both
  request maps, and \<^verbatim>\<open>mapTxLockVotes\<close> holds no vote whose own confirmed height is
  expired at \<open>h\<close> and no vote for that transaction older than
  \<^verbatim>\<open>DIRECTSEND_FAILED_TIMEOUT_SECONDS\<close>.
\<close>

theorem CheckAndRemove_evicts_expired:
  assumes synced: "IsMasternodeListSynced env"
    and cand: "(k, c) \<in> set (mapTxLockCandidates st)"
    and confirmed: "cand_nConfirmedHeight c \<noteq> -1"
    and old: "h - cand_nConfirmedHeight c > nDirectSendKeepLock env"
  shows "\<not> sm_count k (mapTxLockCandidates (CheckAndRemove env (UpdatedBlockTip h st)))
    \<and> (\<forall>outp \<in> set (sm_keys (mapOutPointLocks c)).
          \<not> sm_count outp (mapLockedOutpoints (CheckAndRemove env (UpdatedBlockTip h st)))
          \<and> \<not> sm_count outp (mapVotedOutpoints (CheckAndRemove env (UpdatedBlockTip h st))))
    \<and> \<not> sm_count (cand_GetHash c) (mapLockRequestAccepted (CheckAndRemove env (UpdatedBlockTip h st)))
    \<and> \<not> sm_count (cand_GetHash c) (mapLockRequestRejected (CheckAndRemove env (UpdatedBlockTip h st)))
    \<and> (\<forall>e \<in> set (mapTxLockVotes (CheckAndRemove env (UpdatedBlockTip h st))).
          \<not> vote_IsExpired env (snd e) h
          \<and> (txHash (snd e) = k \<longrightarrow>
               GetTime env - nTimeCreated (snd e) \<le> DIRECTSEND_FAILED_TIMEOUT_SECONDS env))"
proof -
  let ?st = "UpdatedBlockTip h st"
  have exp: "cand_IsExpired env (snd (k, c)) (nCachedBlockHeight ?st)"
    using confirmed old by (simp add: cand_IsExpired_def UpdatedBlockTip_def)
  have mem: "(k, c) \<in> set (mapTxLockCandidates ?st)"
    using cand by (simp add: UpdatedBlockTip_def)
  note rm = fold_remove_expired_removes[OF mem exp, folded remove_expired_candidates_def]
  note maps = CheckAndRemove_maps[OF synced, of ?st]
  have gone: "\<not> sm_count k (mapTxLockCandidates (CheckAndRemove env ?st))"
    using rm by (simp add: maps)
  have votes: "\<not> vote_IsExpired env (snd e) h
          \<and> (txHash (snd e) = k \<longrightarrow>
               GetTime env - nTimeCreated (snd e) \<le> DIRECTSEND_FAILED_TIMEOUT_SECONDS env)"
    if "e \<in> set (mapTxLockVotes (CheckAndRemove env ?st))" for e
    using CheckAndRemove_votes(2,3)[OF synced that] gone
    by (auto simp: UpdatedBlockTip_def)
  show ?thesis using rm gone votes by (simp add: maps)
qed
theorem CheckAndRemove_evicts_expired_witness:
  "(7, late_vote_candidate) \<in> set (mapTxLockCandidates late_vote_engine)
   \<and> \<not> sm_count 7
         (mapTxLockCandidates (CheckAndRemove example_env (UpdatedBlockTip 100 late_vote_engine)))
   \<and> \<not> sm_count (1, 0)
         (mapVotedOutpoints (CheckAndRemove example_env (UpdatedBlockTip 100 late_vote_engine)))
   \<and> \<not> sm_count 7
         (mapLockRequestRejected (CheckAndRemove example_env (UpdatedBlockTip 100 late_vote_engine)))"
  using CheckAndRemove_evicts_expired [of example_env 7 late_vote_candidate late_vote_engine 100]
  by (simp add: example_env_def late_vote_engine_def late_vote_candidate_def sm_keys_def
        cand_GetHash_def example_request_def)

subsection \<open>\<^verbatim>\<open>SyncTransaction\<close>\<close>

lemma set_sm_modify:
  "set (sm_modify k f m) = (\<lambda>e. if fst e = k then (fst e, f (snd e)) else e) ` set m"
  by (simp add: sm_modify_def)

lemma map_fst_sm_modify [simp]: "map fst (sm_modify k f m) = map fst m"
  by (induction m) (auto simp: sm_modify_def)

lemma sm_count_modify [simp]: "sm_count k' (sm_modify k f m) = sm_count k' m"
  unfolding sm_count_def by (simp only: map_fst_sm_modify)

lemma vote_GetHash_SetConfirmedHeight [simp]:
  "vote_GetHash (vote_SetConfirmedHeight h v) = vote_GetHash v"
  by (simp add: vote_GetHash_def vote_SetConfirmedHeight_def)

lemma set_sm_insert: "set (sm_insert k v m) \<subseteq> insert (k, v) (set m)"
  by (induction k v m rule: sm_insert.induct) auto

lemma set_sm_insert_old: "set m \<subseteq> set (sm_insert k v m)"
  by (induction k v m rule: sm_insert.induct) auto

text \<open>\<open>heights_set K h st\<close>: every entry of \<open>mapTxLockVotes\<close> under a key in \<open>K\<close> has height \<open>h\<close>.\<close>

lemma sync_votes_fields [simp]:
  "mapTxLockCandidates (sync_votes h vs st) = mapTxLockCandidates st"
  "mapTxLockVotesOrphan (sync_votes h vs st) = mapTxLockVotesOrphan st"
  by (induction vs arbitrary: st) (simp_all add: sync_votes_def)

lemma sync_votes_Cons:
  "sync_votes h (v # vs) st =
     sync_votes h vs (st\<lparr>mapTxLockVotes :=
        sm_modify (vote_GetHash v) (vote_SetConfirmedHeight h) (mapTxLockVotes st)\<rparr>)"
  by (simp add: sync_votes_def)

lemma sync_votes_Nil [simp]: "sync_votes h [] st = st"
  by (simp add: sync_votes_def)

lemma sync_votes_heights:
  assumes "\<forall>e \<in> set (mapTxLockVotes st). fst e \<in> K \<longrightarrow> nConfirmedHeight (snd e) = h"
  shows "\<forall>e \<in> set (mapTxLockVotes (sync_votes h vs st)).
           fst e \<in> K \<union> vote_GetHash ` set vs \<longrightarrow> nConfirmedHeight (snd e) = h"
  using assms
proof (induction vs arbitrary: st K)
  case Nil
  then show ?case by simp
next
  case (Cons v vs)
  let ?st1 = "st\<lparr>mapTxLockVotes :=
        sm_modify (vote_GetHash v) (vote_SetConfirmedHeight h) (mapTxLockVotes st)\<rparr>"
  have "\<forall>e \<in> set (mapTxLockVotes ?st1).
          fst e \<in> insert (vote_GetHash v) K \<longrightarrow> nConfirmedHeight (snd e) = h"
    using Cons.prems by (auto simp: set_sm_modify vote_SetConfirmedHeight_def)
  from Cons.IH[OF this] show ?case by (simp add: sync_votes_Cons)
qed

lemma sync_orphan_fields [simp]:
  "mapTxLockCandidates (sync_orphan env t h e st) = mapTxLockCandidates st"
  "mapTxLockVotesOrphan (sync_orphan env t h e st) = mapTxLockVotesOrphan st"
  by (simp_all add: sync_orphan_def)

lemma fold_sync_orphan_fields [simp]:
  "mapTxLockCandidates (fold (sync_orphan env t h) es st) = mapTxLockCandidates st"
  "mapTxLockVotesOrphan (fold (sync_orphan env t h) es st) = mapTxLockVotesOrphan st"
  by (induction es arbitrary: st) simp_all

lemma fold_sync_orphan_heights:
  assumes "\<forall>e \<in> set (mapTxLockVotes st). fst e \<in> K \<longrightarrow> nConfirmedHeight (snd e) = h"
  shows "\<forall>e \<in> set (mapTxLockVotes (fold (sync_orphan env t h) es st)).
           fst e \<in> K \<union> fst ` {ov \<in> set es. txHash (snd ov) = t} \<longrightarrow> nConfirmedHeight (snd e) = h"
  using assms
proof (induction es arbitrary: st K)
  case Nil
  then show ?case by simp
next
  case (Cons ov es)
  let ?K1 = "if txHash (snd ov) = t then insert (fst ov) K else K"
  have "\<forall>e \<in> set (mapTxLockVotes (sync_orphan env t h ov st)).
          fst e \<in> ?K1 \<longrightarrow> nConfirmedHeight (snd e) = h"
    using Cons.prems set_sm_insert[of "fst ov" "CTxLockVote_default env" "mapTxLockVotes st"]
    by (auto simp: sync_orphan_def set_sm_modify vote_SetConfirmedHeight_def)
  from Cons.IH[OF this] show ?case by auto
qed

lemma fold_sync_orphan_keeps:
  "sm_count k (mapTxLockVotes st) \<Longrightarrow> sm_count k (mapTxLockVotes (fold (sync_orphan env t h) es st))"
proof (induction es arbitrary: st)
  case Nil
  then show ?case by simp
next
  case (Cons a es)
  from Cons.prems have "sm_count k (mapTxLockVotes (sync_orphan env t h a st))"
    by (simp add: sync_orphan_def)
  from Cons.IH[OF this] show ?case by simp
qed

lemma fold_sync_orphan_present:
  "ov \<in> set es \<Longrightarrow> txHash (snd ov) = t \<Longrightarrow>
   sm_count (fst ov) (mapTxLockVotes (fold (sync_orphan env t h) es st))"
proof (induction es arbitrary: st)
  case Nil
  then show ?case by simp
next
  case (Cons a es)
  show ?case
  proof (cases "ov = a")
    case True
    have "sm_count (fst ov) (mapTxLockVotes (sync_orphan env t h a st))"
      using True Cons.prems(2) by (simp add: sync_orphan_def)
    then show ?thesis by (simp add: fold_sync_orphan_keeps)
  next
    case False
    with Cons.prems have "ov \<in> set es" by simp
    from Cons.IH[OF this Cons.prems(2)] show ?thesis by simp
  qed
qed

lemma set_sm_modify_cand:
  "e \<in> set (sm_modify k f m) \<Longrightarrow> fst e = k \<Longrightarrow> \<exists>c. (k, c) \<in> set m \<and> snd e = f c"
  by (cases e) (auto simp: set_sm_modify split: if_splits)

lemma SyncTransaction_propagates:
  assumes cand: "sm_find t (mapTxLockCandidates st) = Some c"
    and lock: "(outp, l) \<in> set (mapOutPointLocks c)"
    and vote: "(mn, v) \<in> set (mapMasternodeVotes l)"
    and stored: "e \<in> set (mapTxLockVotes (SyncTransaction env False t (BlockAtHeight h) st))"
    and key: "fst e = vote_GetHash v"
  shows "nConfirmedHeight (snd e) = h
    \<and> (\<forall>kc \<in> set (mapTxLockCandidates (SyncTransaction env False t (BlockAtHeight h) st)).
          fst kc = t \<longrightarrow> cand_nConfirmedHeight (snd kc) = h)"
proof -
  let ?st0 = "st\<lparr>mapTxLockCandidates :=
                 sm_modify t (cand_SetConfirmedHeight h) (mapTxLockCandidates st)\<rparr>"
  let ?vs = "concat (map (\<lambda>e. GetVotes (snd e)) (mapOutPointLocks (cand_SetConfirmedHeight h c)))"
  let ?st1 = "sync_votes h ?vs ?st0"
  have sync: "SyncTransaction env False t (BlockAtHeight h) st
               = fold (sync_orphan env t h) (mapTxLockVotesOrphan ?st1) ?st1"
    using cand by (simp add: SyncTransaction_def Let_def)
  have "vote_SetConfirmedHeight h v \<in> set ?vs"
    using lock vote
    by (force simp: cand_SetConfirmedHeight_def lock_SetConfirmedHeight_def GetVotes_def image_iff)
  then have "vote_GetHash (vote_SetConfirmedHeight h v) \<in> vote_GetHash ` set ?vs"
    by (rule imageI)
  then have "vote_GetHash v \<in> vote_GetHash ` set ?vs"
    by simp
  moreover have "\<forall>e \<in> set (mapTxLockVotes ?st1).
      fst e \<in> {} \<union> vote_GetHash ` set ?vs \<longrightarrow> nConfirmedHeight (snd e) = h"
    by (rule sync_votes_heights) simp
  ultimately have
    "\<forall>e \<in> set (mapTxLockVotes ?st1). fst e \<in> {vote_GetHash v} \<longrightarrow> nConfirmedHeight (snd e) = h"
    by auto
  from fold_sync_orphan_heights[OF this, of env t "mapTxLockVotesOrphan ?st1"] stored key
  have h1: "nConfirmedHeight (snd e) = h" by (simp add: sync)
  have "cand_nConfirmedHeight (snd kc) = h"
    if "kc \<in> set (mapTxLockCandidates (SyncTransaction env False t (BlockAtHeight h) st))"
      and "fst kc = t" for kc
    using that set_sm_modify_cand[of kc t "cand_SetConfirmedHeight h" "mapTxLockCandidates st"]
    by (auto simp: sync cand_SetConfirmedHeight_def)
  with h1 show ?thesis by blast
qed

subsection \<open>Conflict resolution\<close>

lemma CheckAndRemove_votes_subset:
  "set (mapTxLockVotes (CheckAndRemove env st)) \<subseteq> set (mapTxLockVotes st)"
proof (cases "IsMasternodeListSynced env")
  case True
  then show ?thesis using CheckAndRemove_votes(1)[of env _ st] by blast
next
  case False
  then show ?thesis by (simp add: CheckAndRemove_def)
qed

lemma CheckAndRemove_locked_subset:
  "set (mapLockedOutpoints (CheckAndRemove env st)) \<subseteq> set (mapLockedOutpoints st)"
proof (cases "IsMasternodeListSynced env")
  case True
  then show ?thesis by (simp add: CheckAndRemove_maps remove_expired_candidates_facts)
next
  case False
  then show ?thesis by (simp add: CheckAndRemove_def)
qed

lemma CheckAndRemove_candidates_subset:
  "set (mapTxLockCandidates (CheckAndRemove env st)) \<subseteq> set (mapTxLockCandidates st)"
proof (cases "IsMasternodeListSynced env")
  case True
  then show ?thesis by (simp add: CheckAndRemove_maps remove_expired_candidates_facts)
next
  case False
  then show ?thesis by (simp add: CheckAndRemove_def)
qed

lemma modify_candidate_fields [simp]:
  "mapTxLockVotes (modify_candidate k f st) = mapTxLockVotes st"
  "mapTxLockVotesOrphan (modify_candidate k f st) = mapTxLockVotesOrphan st"
  "mapLockedOutpoints (modify_candidate k f st) = mapLockedOutpoints st"
  "mapVotedOutpoints (modify_candidate k f st) = mapVotedOutpoints st"
  "mapLockRequestAccepted (modify_candidate k f st) = mapLockRequestAccepted st"
  "mapLockRequestRejected (modify_candidate k f st) = mapLockRequestRejected st"
  "mapMasternodeOrphanVotes (modify_candidate k f st) = mapMasternodeOrphanVotes st"
  "nCachedBlockHeight (modify_candidate k f st) = nCachedBlockHeight st"
  "events (modify_candidate k f st) = events st"
  "nCompleteTXLocks (modify_candidate k f st) = nCompleteTXLocks st"
  "mapTxLockCandidates (modify_candidate k f st) = sm_modify k f (mapTxLockCandidates st)"
  by (simp_all add: modify_candidate_def)

lemma drop_both_False [simp]: "fst (drop_both env t t' st) = False"
  by (simp add: drop_both_def Let_def split: option.splits)

lemma drop_both_votes:
  "set (mapTxLockVotes (snd (drop_both env t t' st))) \<subseteq> set (mapTxLockVotes st)"
  using CheckAndRemove_votes_subset[of env
      "modify_candidate t' (cand_SetConfirmedHeight 0) (modify_candidate t (cand_SetConfirmedHeight 0) st)"]
  by (auto simp: drop_both_def Let_def split: option.splits)

lemma ResolveConflicts_vin_votes:
  "ResolveConflicts_vin env t ins st = Some r \<Longrightarrow>
   set (mapTxLockVotes (snd r)) \<subseteq> set (mapTxLockVotes st)"
proof (induction ins)
  case Nil
  then show ?case by simp
next
  case (Cons p ins)
  then show ?case
    using drop_both_votes[of env t _ st]
    by (auto split: option.splits if_splits)
qed

lemma ResolveConflicts_votes:
  "set (mapTxLockVotes (snd (ResolveConflicts env k st))) \<subseteq> set (mapTxLockVotes st)"
  using ResolveConflicts_vin_votes[of env]
  by (auto simp: ResolveConflicts_def split: option.splits)

text \<open>The loop over the inputs, up to the first input locked by another transaction.\<close>

lemma ResolveConflicts_vin_first_conflict:
  assumes "\<forall>p \<in> set pre. (GetLockedOutPointTxHash st p = None \<or> GetLockedOutPointTxHash st p = Some t)
                         \<and> (mempool_mapNextTx env p = None \<or> mempool_mapNextTx env p = Some t)"
    and "GetLockedOutPointTxHash st prevout = Some t'" and "t' \<noteq> t"
  shows "ResolveConflicts_vin env t (pre @ prevout # post) st = Some (drop_both env t t' st)"
  using assms by (induction pre) (auto split: option.splits)

lemma IsLocked_conflicting_input:
  assumes "sm_find k (mapTxLockCandidates st) = Some c"
    and "(prevout, l) \<in> set (mapOutPointLocks c)"
    and "GetLockedOutPointTxHash st prevout = Some t'" and "t' \<noteq> k"
  shows "\<not> IsLockedDirectSendTransaction env st k"
proof -
  have "\<not> list_all (\<lambda>e. GetLockedOutPointTxHash st (fst e) = Some k) (mapOutPointLocks c)"
    using assms(2-4) by (auto simp: list_all_iff intro!: bexI[of _ "(prevout, l)"])
  then show ?thesis using assms(1) by (simp add: IsLockedDirectSendTransaction_def)
qed

lemma set_sm_modify_other:
  "e \<in> set (sm_modify k f m) \<Longrightarrow> fst e \<noteq> k \<Longrightarrow> e \<in> set m"
  by (induction m) (auto simp: sm_modify_def split: if_splits)

lemma cand_height_after_modify:
  assumes "kc \<in> set (sm_modify t' (cand_SetConfirmedHeight 0)
                       (sm_modify k (cand_SetConfirmedHeight 0) m))"
    and "fst kc = k \<or> fst kc = t'"
  shows "cand_nConfirmedHeight (snd kc) = 0"
proof (cases "fst kc = t'")
  case True
  from set_sm_modify_cand[OF assms(1) True]
  show ?thesis by (auto simp: cand_SetConfirmedHeight_def)
next
  case False
  with assms(2) have k: "fst kc = k" by simp
  from set_sm_modify_other[OF assms(1) False]
  have "kc \<in> set (sm_modify k (cand_SetConfirmedHeight 0) m)" .
  from set_sm_modify_cand[OF this k]
  show ?thesis by (auto simp: cand_SetConfirmedHeight_def)
qed


subsection \<open>The example runs\<close>

lemma locked_engine_facts:
  "mapTxLockCandidates locked_engine = [(7, example_candidate 7 [1] 99990000 [100, 101, 102, 103, 104, 105])]"
  "mapLockedOutpoints locked_engine = [((1, 0), 7)]"
  by code_simp+

lemma rival_engine_facts:
  "mapTxLockCandidates rival_engine
     = [(7, example_candidate 7 [1] 99990000 [100, 101, 102, 103, 104, 105]),
        (8, example_candidate 8 [1] 99990000 [110, 111, 112, 113, 114])]"
  "mapLockedOutpoints rival_engine = [((1, 0), 7)]"
  "mapLockRequestRejected rival_engine = []"
  by code_simp+


text \<open>
  Claim C2, as stated, fails when an input that precedes the locked one in \<open>vin\<close> is
  spent by another mempool transaction: \<^verbatim>\<open>ResolveConflicts\<close> returns at that input.
  In \<open>two_input_engine\<close> candidate 9 is ready on both inputs \<open>[(2, 0), (1, 0)]\<close>, input
  \<open>(1, 0)\<close> is locked by transaction 7, and finalising changes nothing: both candidates
  keep confirmed height -1 and nothing is recorded as rejected.
\<close>

theorem ResolveConflicts_mempool_first_counterexample:
  "map_option (IsAllOutPointsReady mempool_env) (sm_find 9 (mapTxLockCandidates two_input_engine))
     = Some True
   \<and> map_option (\<lambda>c. vin (the_request (txLockRequest c)))
        (sm_find 9 (mapTxLockCandidates two_input_engine)) = Some [(2, 0), (1, 0)]
   \<and> GetLockedOutPointTxHash two_input_engine (1, 0) = Some 7
   \<and> TryToFinalizeLockCandidate mempool_env 9 two_input_engine = two_input_engine
   \<and> map_option cand_nConfirmedHeight (sm_find 9 (mapTxLockCandidates two_input_engine)) = Some (-1)
   \<and> map_option cand_nConfirmedHeight (sm_find 7 (mapTxLockCandidates two_input_engine)) = Some (-1)
   \<and> mapLockRequestRejected two_input_engine = []"
  by code_simp


text \<open>
  Claim C2, amended. Let the directsend spork be active and the candidate of
  transaction \<open>k\<close> be ready on all outpoints. If an input \<open>prevout\<close> of the candidate is
  locked by another transaction \<open>t'\<close> that has a candidate, and no input before it in
  \<open>vin\<close> is locked by another transaction or spent by another mempool transaction, then
  \<^verbatim>\<open>TryToFinalizeLockCandidate\<close> sets the confirmed height of both candidates to 0,
  runs \<^verbatim>\<open>CheckAndRemove\<close>, inserts both requests into \<^verbatim>\<open>mapLockRequestRejected\<close>,
  and \<^verbatim>\<open>ResolveConflicts\<close> returns false; no outpoint gets locked, and whichever of
  the two candidates the sweep leaves has confirmed height 0.
\<close>

theorem TryToFinalize_completed_conflict:
  assumes spork: "SPORK_2_DIRECTSEND_ENABLED env"
    and cand: "sm_find k (mapTxLockCandidates st) = Some c"
    and hash: "cand_GetHash c = k"
    and ready: "IsAllOutPointsReady env c"
    and inputs: "vin (the_request (txLockRequest c)) = pre @ prevout # post"
    and pre: "\<forall>p \<in> set pre.
                (GetLockedOutPointTxHash st p = None \<or> GetLockedOutPointTxHash st p = Some k)
                \<and> (mempool_mapNextTx env p = None \<or> mempool_mapNextTx env p = Some k)"
    and lock: "(prevout, l) \<in> set (mapOutPointLocks c)"
    and conflict: "GetLockedOutPointTxHash st prevout = Some t'" "t' \<noteq> k"
    and other: "sm_find t' (mapTxLockCandidates st) = Some cc"
  shows "\<exists>swept.
      swept = CheckAndRemove env
                (modify_candidate t' (cand_SetConfirmedHeight 0)
                   (modify_candidate k (cand_SetConfirmedHeight 0) st))
    \<and> ResolveConflicts env k st
        = (False, swept\<lparr>mapLockRequestRejected :=
                    sm_insert t' (the_request (txLockRequest cc))
                      (sm_insert k (the_request (txLockRequest c)) (mapLockRequestRejected swept))\<rparr>)
    \<and> TryToFinalizeLockCandidate env k st
        = swept\<lparr>mapLockRequestRejected :=
                    sm_insert t' (the_request (txLockRequest cc))
                      (sm_insert k (the_request (txLockRequest c)) (mapLockRequestRejected swept))\<rparr>
    \<and> sm_count k (mapLockRequestRejected (TryToFinalizeLockCandidate env k st))
    \<and> sm_count t' (mapLockRequestRejected (TryToFinalizeLockCandidate env k st))
    \<and> set (mapLockedOutpoints (TryToFinalizeLockCandidate env k st)) \<subseteq> set (mapLockedOutpoints st)
    \<and> (\<forall>kc \<in> set (mapTxLockCandidates (TryToFinalizeLockCandidate env k st)).
          fst kc = k \<or> fst kc = t' \<longrightarrow> cand_nConfirmedHeight (snd kc) = 0)"
proof -
  let ?marked = "modify_candidate t' (cand_SetConfirmedHeight 0)
                   (modify_candidate k (cand_SetConfirmedHeight 0) st)"
  let ?swept = "CheckAndRemove env ?marked"
  let ?st' = "?swept\<lparr>mapLockRequestRejected :=
                    sm_insert t' (the_request (txLockRequest cc))
                      (sm_insert k (the_request (txLockRequest c)) (mapLockRequestRejected ?swept))\<rparr>"
  have vinloop: "ResolveConflicts_vin env k (vin (the_request (txLockRequest c))) st
                   = Some (drop_both env k t' st)"
    unfolding inputs using pre conflict by (rule ResolveConflicts_vin_first_conflict)
  have db: "drop_both env k t' st = (False, ?st')"
    using cand other by (simp add: drop_both_def Let_def)
  have rc: "ResolveConflicts env k st = (False, ?st')"
    using cand ready vinloop db by (simp add: ResolveConflicts_def hash)
  have nl: "\<not> IsLockedDirectSendTransaction env st k"
    using cand lock conflict by (rule IsLocked_conflicting_input)
  have tf: "TryToFinalizeLockCandidate env k st = ?st'"
    using spork cand ready nl rc by (simp add: TryToFinalizeLockCandidate_def hash)
  have locked: "set (mapLockedOutpoints ?st') \<subseteq> set (mapLockedOutpoints st)"
    using CheckAndRemove_locked_subset[of env ?marked] by simp
  have heights: "cand_nConfirmedHeight (snd kc) = 0"
    if "kc \<in> set (mapTxLockCandidates ?st')" and "fst kc = k \<or> fst kc = t'" for kc
  proof -
    from that(1) have "kc \<in> set (mapTxLockCandidates ?marked)"
      using CheckAndRemove_candidates_subset[of env ?marked] by auto
    then show ?thesis using that(2) by (intro cand_height_after_modify[of kc t' k]) simp_all
  qed
  show ?thesis
    unfolding tf rc using locked heights by (intro exI[of _ ?swept]) simp
qed

theorem TryToFinalize_completed_conflict_witness:
  "sm_count 8 (mapLockRequestRejected (TryToFinalizeLockCandidate later_env 8 rival_ready_engine))
   \<and> sm_count 7 (mapLockRequestRejected (TryToFinalizeLockCandidate later_env 8 rival_ready_engine))
   \<and> fst (ResolveConflicts later_env 8 rival_ready_engine) = False"
proof -
  let ?c = "example_candidate 8 [1] 99990000 [110, 111, 112, 113, 114, 115]"
  let ?cc = "example_candidate 7 [1] 99990000 [100, 101, 102, 103, 104, 105]"
  let ?l = "snd (example_lock 8 [110, 111, 112, 113, 114, 115] 1)"
  have h1: "SPORK_2_DIRECTSEND_ENABLED later_env" by code_simp
  have h2: "sm_find 8 (mapTxLockCandidates rival_ready_engine) = Some ?c" by code_simp
  have h3: "cand_GetHash ?c = 8" by code_simp
  have h4: "IsAllOutPointsReady later_env ?c" by code_simp
  have h5: "vin (the_request (txLockRequest ?c)) = [] @ (1, 0) # []" by code_simp
  have h6: "\<forall>p \<in> set [].
                (GetLockedOutPointTxHash rival_ready_engine p = None
                 \<or> GetLockedOutPointTxHash rival_ready_engine p = Some 8)
                \<and> (mempool_mapNextTx later_env p = None \<or> mempool_mapNextTx later_env p = Some 8)"
    by simp
  have h7: "((1, 0), ?l) \<in> set (mapOutPointLocks ?c)" by code_simp
  have h8: "GetLockedOutPointTxHash rival_ready_engine (1, 0) = Some 7" by code_simp
  have h9: "(7::nat) \<noteq> 8" by simp
  have h10: "sm_find 7 (mapTxLockCandidates rival_ready_engine) = Some ?cc" by code_simp
  from TryToFinalize_completed_conflict[OF h1 h2 h3 h4 h5 h6 h7 h8 h9 h10]
  show ?thesis by auto
qed


subsection \<open>Conflicting votes of one masternode\<close>

lemma sm_find_modify:
  "sm_find k' (sm_modify k f m) = (if k' = k then map_option f (sm_find k m) else sm_find k' m)"
  by (induction m) (auto simp: sm_find_def sm_modify_def)

lemma cand_HasMasternodeVoted_Mark [simp]:
  "cand_HasMasternodeVoted (MarkOutpointAsAttacked outp c) outp' mn = cand_HasMasternodeVoted c outp' mn"
  by (auto simp: cand_HasMasternodeVoted_def MarkOutpointAsAttacked_def sm_find_modify
        HasMasternodeVoted_def MarkAsAttacked_def split: option.splits)

lemma emit_fields [simp]:
  "mapTxLockCandidates (emit e st) = mapTxLockCandidates st"
  "mapTxLockVotes (emit e st) = mapTxLockVotes st"
  "mapTxLockVotesOrphan (emit e st) = mapTxLockVotesOrphan st"
  "mapVotedOutpoints (emit e st) = mapVotedOutpoints st"
  "mapLockedOutpoints (emit e st) = mapLockedOutpoints st"
  "mapLockRequestAccepted (emit e st) = mapLockRequestAccepted st"
  "mapLockRequestRejected (emit e st) = mapLockRequestRejected st"
  "mapMasternodeOrphanVotes (emit e st) = mapMasternodeOrphanVotes st"
  "nCachedBlockHeight (emit e st) = nCachedBlockHeight st"
  "nCompleteTXLocks (emit e st) = nCompleteTXLocks st"
  "events (emit e st) = events st @ [e]"
  by (simp_all add: emit_def)

text \<open>What one round of the conflict check reads is not changed by the rounds before it.\<close>

lemma conflicting_vote_check_voted:
  "(case sm_find h' (mapTxLockCandidates (conflicting_vote_check vote h st)) of
      None \<Rightarrow> False
    | Some c2 \<Rightarrow> cand_HasMasternodeVoted c2 outp mn)
   = (case sm_find h' (mapTxLockCandidates st) of
        None \<Rightarrow> False
      | Some c2 \<Rightarrow> cand_HasMasternodeVoted c2 outp mn)"
  by (auto simp: conflicting_vote_check_def sm_find_modify split: option.splits)

lemma conflicting_hashes_step:
  "conflicting_hashes vote (conflicting_vote_check vote h st) hs = conflicting_hashes vote st hs"
  by (simp add: conflicting_hashes_def conflicting_vote_check_voted)

lemma conflicting_vote_check_fields [simp]:
  "mapTxLockVotes (conflicting_vote_check vote h st) = mapTxLockVotes st"
  "mapTxLockVotesOrphan (conflicting_vote_check vote h st) = mapTxLockVotesOrphan st"
  "mapVotedOutpoints (conflicting_vote_check vote h st) = mapVotedOutpoints st"
  "mapLockedOutpoints (conflicting_vote_check vote h st) = mapLockedOutpoints st"
  "mapLockRequestAccepted (conflicting_vote_check vote h st) = mapLockRequestAccepted st"
  "mapLockRequestRejected (conflicting_vote_check vote h st) = mapLockRequestRejected st"
  "mapMasternodeOrphanVotes (conflicting_vote_check vote h st) = mapMasternodeOrphanVotes st"
  "nCachedBlockHeight (conflicting_vote_check vote h st) = nCachedBlockHeight st"
  "nCompleteTXLocks (conflicting_vote_check vote h st) = nCompleteTXLocks st"
  by (simp_all add: conflicting_vote_check_def split: option.splits)

lemma conflicting_vote_check_events:
  "events (conflicting_vote_check vote h st)
     = events st @ map (\<lambda>_. PoSeBan (outpointMasternode vote)) (conflicting_hashes vote st [h])"
  by (simp add: conflicting_vote_check_def conflicting_hashes_def split: option.splits)

lemma fold_conflicting_fields [simp]:
  "mapTxLockVotes (fold (conflicting_vote_check vote) hs st) = mapTxLockVotes st"
  "mapTxLockVotesOrphan (fold (conflicting_vote_check vote) hs st) = mapTxLockVotesOrphan st"
  "mapVotedOutpoints (fold (conflicting_vote_check vote) hs st) = mapVotedOutpoints st"
  "mapLockedOutpoints (fold (conflicting_vote_check vote) hs st) = mapLockedOutpoints st"
  "mapLockRequestAccepted (fold (conflicting_vote_check vote) hs st) = mapLockRequestAccepted st"
  "mapLockRequestRejected (fold (conflicting_vote_check vote) hs st) = mapLockRequestRejected st"
  "mapMasternodeOrphanVotes (fold (conflicting_vote_check vote) hs st) = mapMasternodeOrphanVotes st"
  "nCachedBlockHeight (fold (conflicting_vote_check vote) hs st) = nCachedBlockHeight st"
  "nCompleteTXLocks (fold (conflicting_vote_check vote) hs st) = nCompleteTXLocks st"
  by (induction hs arbitrary: st) simp_all

lemma fold_conflicting_events:
  "events (fold (conflicting_vote_check vote) hs st)
     = events st @ map (\<lambda>_. PoSeBan (outpointMasternode vote)) (conflicting_hashes vote st hs)"
proof (induction hs arbitrary: st)
  case Nil
  show ?case by (simp add: conflicting_hashes_def)
next
  case (Cons h hs)
  have split: "conflicting_hashes vote st (h # hs)
                 = conflicting_hashes vote st [h] @ conflicting_hashes vote st hs"
    by (simp add: conflicting_hashes_def)
  show ?case
    by (simp add: Cons.IH conflicting_vote_check_events conflicting_hashes_step split)
qed


lemma find_lock_emit [simp]: "find_lock (emit e st) h outp = find_lock st h outp"
  by (simp add: find_lock_def)

lemma find_lock_Mark:
  "find_lock (modify_candidate h (MarkOutpointAsAttacked outp) st) h' outp'
     = (if h' = h \<and> outp' = outp then map_option MarkAsAttacked (find_lock st h outp)
        else find_lock st h' outp')"
  by (auto simp: find_lock_def sm_find_modify MarkOutpointAsAttacked_def split: option.splits)

lemma MarkAsAttacked_idem [simp]: "MarkAsAttacked (MarkAsAttacked l) = MarkAsAttacked l"
  by (simp add: MarkAsAttacked_def)

lemma conflicting_single:
  "conflicting_hashes vote st [h] \<noteq> [] \<longleftrightarrow>
     h \<noteq> txHash vote \<and> (case sm_find h (mapTxLockCandidates st) of
                           None \<Rightarrow> False
                         | Some c2 \<Rightarrow>
                             cand_HasMasternodeVoted c2 (outpoint vote) (outpointMasternode vote))"
  by (simp add: conflicting_hashes_def)

lemma find_lock_conflicting_vote_check:
  "find_lock (conflicting_vote_check vote h st) h' outp'
     = (if conflicting_hashes vote st [h] \<noteq> [] \<and> outp' = outpoint vote
           \<and> (h' = h \<or> h' = txHash vote)
        then map_option MarkAsAttacked (find_lock st h' outp')
        else find_lock st h' outp')"
  unfolding conflicting_single
  by (auto simp: conflicting_vote_check_def find_lock_Mark option.map_comp comp_def
           split: option.splits)

lemma find_lock_fold_conflicting:
  "find_lock (fold (conflicting_vote_check vote) hs st) h' outp'
     = (if outp' = outpoint vote
           \<and> (h' \<in> set (conflicting_hashes vote st hs)
               \<or> (h' = txHash vote \<and> conflicting_hashes vote st hs \<noteq> []))
        then map_option MarkAsAttacked (find_lock st h' outp')
        else find_lock st h' outp')"
proof (induction hs arbitrary: st)
  case Nil
  show ?case by (simp add: conflicting_hashes_def)
next
  case (Cons h hs)
  have split: "conflicting_hashes vote st (h # hs)
                 = conflicting_hashes vote st [h] @ conflicting_hashes vote st hs"
    by (simp add: conflicting_hashes_def)
  have single: "set (conflicting_hashes vote st [h]) \<subseteq> {h}"
    by (auto simp: conflicting_hashes_def)
  have ne: "conflicting_hashes vote st [h] \<noteq> [] \<longleftrightarrow> h \<in> set (conflicting_hashes vote st [h])"
    by (auto simp: conflicting_hashes_def)
  show ?case
    using single
    by (simp add: Cons.IH conflicting_hashes_step find_lock_conflicting_vote_check split
          option.map_comp comp_def)
       (auto simp: ne)
qed

lemma find_lock_cong:
  "mapTxLockCandidates st = mapTxLockCandidates st' \<Longrightarrow> find_lock st = find_lock st'"
  by (simp add: find_lock_def fun_eq_iff)

lemma conflicting_hashes_cong:
  "mapTxLockCandidates st = mapTxLockCandidates st' \<Longrightarrow>
   conflicting_hashes vote st = conflicting_hashes vote st'"
  by (simp add: conflicting_hashes_def fun_eq_iff)

lemma conflicting_has_lock:
  "h \<in> set (conflicting_hashes vote st hs) \<Longrightarrow> \<exists>l. find_lock st h (outpoint vote) = Some l"
  by (auto simp: conflicting_hashes_def find_lock_def cand_HasMasternodeVoted_def
           split: option.splits)

lemma conflicting_not_self:
  "h \<in> set (conflicting_hashes vote st hs) \<Longrightarrow> h \<noteq> txHash vote"
  by (simp add: conflicting_hashes_def)

lemma find_lock_AddVote:
  "find_lock (modify_candidate h (\<lambda>c. snd (cand_AddVote vote c)) st) h' outp'
     = (if h' = h \<and> outp' = outpoint vote
        then map_option (\<lambda>l. snd (AddVote vote l)) (find_lock st h' outp')
        else find_lock st h' outp')"
  by (auto simp: find_lock_def sm_find_modify cand_AddVote_def split: option.splits)

lemma find_lock_D:
  "find_lock st h outp = Some l \<Longrightarrow>
   \<exists>c. sm_find h (mapTxLockCandidates st) = Some c \<and> sm_find outp (mapOutPointLocks c) = Some l"
  by (auto simp: find_lock_def split: option.splits)

lemma TryToFinalize_attacked:
  assumes "find_lock st h outp = Some l" and "fAttacked l" and "0 < SIGNATURES_REQUIRED env"
  shows "TryToFinalizeLockCandidate env h st = st"
proof -
  from find_lock_D[OF assms(1)] obtain c where c: "sm_find h (mapTxLockCandidates st) = Some c"
    and l: "sm_find outp (mapOutPointLocks c) = Some l" by blast
  from l have "(outp, l) \<in> set (mapOutPointLocks c)"
    by (simp add: sm_find_def map_of_SomeD)
  moreover have "\<not> lock_IsReady env l"
    using assms(2,3) by (simp add: lock_IsReady_def lock_CountVotes_def)
  ultimately have "\<not> IsAllOutPointsReady env c"
    by (auto simp: IsAllOutPointsReady_def list_all_iff intro!: bexI[of _ "(outp, l)"])
  then show ?thesis using c by (simp add: TryToFinalizeLockCandidate_def)
qed

lemma sm_find_insert_other: "k' \<noteq> k \<Longrightarrow> sm_find k' (sm_insert k v m) = sm_find k' m"
  by (induction k v m rule: sm_insert.induct) (auto simp: sm_find_def)


text \<open>
  Claim C6, as stated, has \<^verbatim>\<open>PoSeBan\<close> invoked exactly once. The loop bans once for
  every other candidate holding a vote of the masternode on the outpoint: in
  \<open>equivocation_engine\<close> the vote of \<open>(100, 0)\<close> for transaction 9 meets its votes in 7
  and in 8, and the ban is invoked twice.
\<close>

theorem equivocation_bans_twice_counterexample:
  "map_option events
     (ProcessMessage example_env 70208 (TXLOCKVOTE (example_vote 9 1 100)) equivocation_engine)
   = Some (events equivocation_engine
           @ [RelayInv (vote_GetHash (example_vote 9 1 100)), PoSeBan (100, 0), PoSeBan (100, 0)])"
  by code_simp

text \<open>
  Claim C6, amended. Let a new, valid vote arrive for a candidate that has its request
  and has not timed out, on an outpoint of that candidate on which the masternode has
  not voted in it, and let \<^verbatim>\<open>SIGNATURES_REQUIRED\<close> be positive. If the masternode has
  already voted on that outpoint in other candidates recorded under the outpoint in
  \<^verbatim>\<open>mapVotedOutpoints\<close>, then the outpoint is marked attacked in the current
  candidate and in each of those candidates, \<^verbatim>\<open>PoSeBan\<close> is invoked on the masternode
  once for each of them, the new vote is added to \<^verbatim>\<open>mapTxLockVotes\<close> (all earlier
  entries staying) and is attached to the current candidate.
\<close>

theorem equivocation_marks_and_bans:
  assumes gates: "\<not> fLiteMode env" "SPORK_2_DIRECTSEND_ENABLED env" "IsMasternodeListSynced env"
      "nVersion \<ge> MIN_DIRECTSEND_PROTO_VERSION env"
    and new: "\<not> sm_count (vote_GetHash vote) (mapTxLockVotes st)"
    and valid: "vote_IsValid env vote"
    and required: "0 < SIGNATURES_REQUIRED env"
    and cand: "sm_find (txHash vote) (mapTxLockCandidates st) = Some c"
    and request: "txLockRequest c \<noteq> None"
    and timely: "\<not> cand_IsTimedOut env c"
    and lock: "find_lock st (txHash vote) (outpoint vote) = Some l"
    and first: "\<not> HasMasternodeVoted l (outpointMasternode vote)"
    and voted: "sm_find (outpoint vote) (mapVotedOutpoints st) = Some hashes"
    and equivocation: "conflicting_hashes vote st hashes \<noteq> []"
  shows "\<exists>st'. ProcessMessage env nVersion (TXLOCKVOTE vote) st = Some st'
    \<and> events st' = events st @ RelayInv (vote_GetHash vote)
                      # map (\<lambda>_. PoSeBan (outpointMasternode vote)) (conflicting_hashes vote st hashes)
    \<and> outpoint_attacked st' (txHash vote) (outpoint vote)
    \<and> (\<forall>h \<in> set (conflicting_hashes vote st hashes). outpoint_attacked st' h (outpoint vote))
    \<and> mapTxLockVotes st' = sm_insert (vote_GetHash vote) vote (mapTxLockVotes st)
    \<and> (\<exists>l'. find_lock st' (txHash vote) (outpoint vote) = Some l'
             \<and> sm_find (outpointMasternode vote) (mapMasternodeVotes l') = Some vote)"
proof -
  let ?tx = "txHash vote" and ?o = "outpoint vote" and ?mn = "outpointMasternode vote"
  let ?st1 = "st\<lparr>mapTxLockVotes := sm_insert (vote_GetHash vote) vote (mapTxLockVotes st)\<rparr>"
  let ?st2 = "emit (RelayInv (vote_GetHash vote)) ?st1"
  let ?st3 = "record_voted_outpoint vote ?st2"
  let ?st4 = "modify_candidate ?tx (\<lambda>c. snd (cand_AddVote vote c)) ?st3"
  let ?confl = "conflicting_hashes vote st hashes"
  let ?l3 = "MarkAsAttacked l"
  let ?l4 = "snd (AddVote vote ?l3)"
  have fl2: "find_lock ?st2 = find_lock st" by (rule find_lock_cong) simp
  have cf2: "conflicting_hashes vote ?st2 = conflicting_hashes vote st"
    by (rule conflicting_hashes_cong) simp
  have st3: "?st3 = (fold (conflicting_vote_check vote) hashes ?st2)
                \<lparr>mapVotedOutpoints := sm_set ?o (set_insert ?tx hashes)
                   (mapVotedOutpoints (fold (conflicting_vote_check vote) hashes ?st2))\<rparr>"
    using voted by (simp add: record_voted_outpoint_def Let_def)
  have fl3: "find_lock ?st3 = find_lock (fold (conflicting_vote_check vote) hashes ?st2)"
    unfolding st3 by (rule find_lock_cong) simp
  have lock3: "find_lock ?st3 ?tx ?o = Some ?l3"
    using equivocation lock by (simp add: fl3 find_lock_fold_conflicting cf2 fl2)
  have ev3: "events ?st3 = events st @ RelayInv (vote_GetHash vote)
                             # map (\<lambda>_. PoSeBan ?mn) ?confl"
    unfolding st3 by (simp add: fold_conflicting_events cf2)
  have votes3: "mapTxLockVotes ?st3 = sm_insert (vote_GetHash vote) vote (mapTxLockVotes st)"
    unfolding st3 by simp
  from find_lock_D[OF lock3] obtain c3 where
    c3: "sm_find ?tx (mapTxLockCandidates ?st3) = Some c3"
    and l3: "sm_find ?o (mapOutPointLocks c3) = Some ?l3" by blast
  have ok: "fst (cand_AddVote vote c3)"
    using l3 first by (simp add: cand_AddVote_def AddVote_def HasMasternodeVoted_def MarkAsAttacked_def)
  have lock4: "find_lock ?st4 ?tx ?o = Some ?l4"
    using lock3 by (simp add: find_lock_AddVote)
  have att4: "fAttacked ?l4"
    by (simp add: AddVote_def MarkAsAttacked_def)
  have fin: "TryToFinalizeLockCandidate env ?tx ?st4 = ?st4"
    using lock4 att4 required by (rule TryToFinalize_attacked)
  have attach: "ProcessTxLockVote_attach env vote c ?st2 = (True, ?st4)"
    using timely c3 ok fin by (simp add: ProcessTxLockVote_attach_def Let_def)
  from request obtain req where req: "txLockRequest c = Some req" by auto
  have "ProcessTxLockVote env vote ?st1 = Some (True, ?st4)"
    using valid cand req attach
    by (simp add: ProcessTxLockVote_def numeral_2_eq_2 ProcessTxLockVote_body_def Let_def)
  then have pm: "ProcessMessage env nVersion (TXLOCKVOTE vote) st = Some ?st4"
    using gates new by (simp add: ProcessMessage_def)
  have ev4: "events ?st4 = events st @ RelayInv (vote_GetHash vote)
                             # map (\<lambda>_. PoSeBan ?mn) ?confl"
    using ev3 by simp
  have votes4: "mapTxLockVotes ?st4 = sm_insert (vote_GetHash vote) vote (mapTxLockVotes st)"
    using votes3 by simp
  have self: "outpoint_attacked ?st4 ?tx ?o"
    using lock4 att4 by (simp add: outpoint_attacked_def)
  have others: "outpoint_attacked ?st4 h ?o" if "h \<in> set ?confl" for h
  proof -
    from conflicting_has_lock[OF that] obtain lh where lh: "find_lock st h ?o = Some lh" by blast
    have "find_lock ?st4 h ?o = Some (MarkAsAttacked lh)"
      using that lh conflicting_not_self[OF that]
      by (simp add: find_lock_AddVote fl3 find_lock_fold_conflicting cf2 fl2)
    then show ?thesis by (simp add: outpoint_attacked_def MarkAsAttacked_def)
  qed
  have attached: "sm_find ?mn (mapMasternodeVotes ?l4) = Some vote"
    using first
    by (simp add: AddVote_def HasMasternodeVoted_def MarkAsAttacked_def sm_find_insert_new)
  show ?thesis
    using pm ev4 self others votes4 lock4 attached by (intro exI[of _ ?st4]) blast
qed

theorem equivocation_marks_and_bans_witness:
  "\<exists>st'. ProcessMessage example_env 70208 (TXLOCKVOTE (example_vote 9 1 100)) equivocation_engine
            = Some st'
     \<and> events st' = events equivocation_engine
          @ [RelayInv (vote_GetHash (example_vote 9 1 100)), PoSeBan (100, 0), PoSeBan (100, 0)]
     \<and> outpoint_attacked st' 9 (1, 0) \<and> outpoint_attacked st' 7 (1, 0)
     \<and> outpoint_attacked st' 8 (1, 0)
     \<and> sm_count (vote_GetHash (example_vote 9 1 100)) (mapTxLockVotes st')
     \<and> sm_count (vote_GetHash (example_vote 7 1 100)) (mapTxLockVotes st')"
proof -
  let ?v = "example_vote 9 1 100"
  let ?c = "example_candidate 9 [1] 99990000 []"
  let ?l = "snd (example_lock 9 [] 1)"
  have g: "\<not> fLiteMode example_env" "SPORK_2_DIRECTSEND_ENABLED example_env"
    "IsMasternodeListSynced example_env" "70208 \<ge> MIN_DIRECTSEND_PROTO_VERSION example_env"
    by code_simp+
  have h1: "\<not> sm_count (vote_GetHash ?v) (mapTxLockVotes equivocation_engine)" by code_simp
  have h2: "vote_IsValid example_env ?v" by code_simp
  have h3: "0 < SIGNATURES_REQUIRED example_env" by code_simp
  have h4: "sm_find (txHash ?v) (mapTxLockCandidates equivocation_engine) = Some ?c" by code_simp
  have h5: "txLockRequest ?c \<noteq> None" by code_simp
  have h6: "\<not> cand_IsTimedOut example_env ?c" by code_simp
  have h7: "find_lock equivocation_engine (txHash ?v) (outpoint ?v) = Some ?l" by code_simp
  have h8: "\<not> HasMasternodeVoted ?l (outpointMasternode ?v)" by code_simp
  have h9: "sm_find (outpoint ?v) (mapVotedOutpoints equivocation_engine) = Some [7, 8]" by code_simp
  have c: "conflicting_hashes ?v equivocation_engine [7, 8] = [7, 8]" by code_simp
  have h10: "conflicting_hashes ?v equivocation_engine [7, 8] \<noteq> []" unfolding c by simp
  have old: "sm_count (vote_GetHash (example_vote 7 1 100)) (mapTxLockVotes equivocation_engine)"
    by code_simp
  have sig: "outpointMasternode ?v = (100, 0)" "txHash ?v = 9" "outpoint ?v = (1, 0)"
    by (simp_all add: example_vote_def)
  from equivocation_marks_and_bans[OF g h1 h2 h3 h4 h5 h6 h7 h8 h9 h10, unfolded c sig]
  obtain st' where
    pm: "ProcessMessage example_env 70208 (TXLOCKVOTE ?v) equivocation_engine = Some st'"
    and ev: "events st' = events equivocation_engine
               @ RelayInv (vote_GetHash ?v) # map (\<lambda>_. PoSeBan (100, 0)) [7::nat, 8]"
    and self: "outpoint_attacked st' 9 (1, 0)"
    and others: "\<forall>h \<in> set [7, 8]. outpoint_attacked st' h (1, 0)"
    and votes: "mapTxLockVotes st'
                  = sm_insert (vote_GetHash ?v) ?v (mapTxLockVotes equivocation_engine)"
    by blast
  have "ProcessMessage example_env 70208 (TXLOCKVOTE ?v) equivocation_engine = Some st'
     \<and> events st' = events equivocation_engine
          @ [RelayInv (vote_GetHash ?v), PoSeBan (100, 0), PoSeBan (100, 0)]
     \<and> outpoint_attacked st' 9 (1, 0) \<and> outpoint_attacked st' 7 (1, 0)
     \<and> outpoint_attacked st' 8 (1, 0)
     \<and> sm_count (vote_GetHash ?v) (mapTxLockVotes st')
     \<and> sm_count (vote_GetHash (example_vote 7 1 100)) (mapTxLockVotes st')"
    using pm ev self others votes old by simp
  then show ?thesis by (rule exI)
qed

subsection \<open>Confirmed heights of votes\<close>

lemma LockTransactionInputs_votes [simp]:
  "mapTxLockVotes (LockTransactionInputs env k st) = mapTxLockVotes st"
  by (simp add: LockTransactionInputs_def split: option.splits)

lemma UpdateLockedTransaction_votes [simp]:
  "mapTxLockVotes (UpdateLockedTransaction env k st) = mapTxLockVotes st"
  by (simp add: UpdateLockedTransaction_def Let_def split: option.splits)

lemma TryToFinalize_votes:
  "set (mapTxLockVotes (TryToFinalizeLockCandidate env k st)) \<subseteq> set (mapTxLockVotes st)"
  using ResolveConflicts_votes[of env k st]
  by (auto simp: TryToFinalizeLockCandidate_def split: option.splits prod.splits bool.splits)


text \<open>
  Claim C8, as stated, has every call site propagate the height to the votes.
  \<^verbatim>\<open>ResolveConflicts\<close> does not: when the sixth vote for transaction 8 arrives in
  \<open>rival_engine\<close>, both candidates (never confirmed before) are given height 0 and swept
  away, and all twelve votes stay in \<^verbatim>\<open>mapTxLockVotes\<close> with confirmed height -1.
\<close>

theorem conflict_leaves_vote_heights_counterexample:
  "map_option cand_nConfirmedHeight (sm_find 7 (mapTxLockCandidates rival_engine)) = Some (-1)
   \<and> map_option cand_nConfirmedHeight (sm_find 8 (mapTxLockCandidates rival_engine)) = Some (-1)
   \<and> mapTxLockCandidates (feed_votes later_env [example_vote 8 1 115] rival_engine) = []
   \<and> map fst (mapLockRequestRejected (feed_votes later_env [example_vote 8 1 115] rival_engine))
       = [7, 8]
   \<and> map (\<lambda>e. (txHash (snd e), nConfirmedHeight (snd e)))
        (mapTxLockVotes (feed_votes later_env [example_vote 8 1 115] rival_engine))
       = replicate 6 (7, -1) @ replicate 6 (8, -1)"
  by code_simp


text \<open>
  Claim C8, amended. \<^verbatim>\<open>SyncTransaction\<close> for a transaction included at height \<open>h\<close>
  sets the confirmed height of its candidate to \<open>h\<close> and of every entry of
  \<^verbatim>\<open>mapTxLockVotes\<close> stored under the hash of a vote contained in that candidate, and
  of every entry stored under the key of an orphan vote for that transaction.
  Conflict resolution (\<^verbatim>\<open>ResolveConflicts\<close>, and \<^verbatim>\<open>TryToFinalizeLockCandidate\<close>
  around it) sets the confirmed height of the two candidates only: every entry of
  \<^verbatim>\<open>mapTxLockVotes\<close> afterwards is an entry from before, unchanged.
\<close>

theorem confirmed_height_reaches_votes:
  "(sm_find t (mapTxLockCandidates st) = Some c
      \<and> (outp, l) \<in> set (mapOutPointLocks c) \<and> (mn, v) \<in> set (mapMasternodeVotes l)
      \<and> e \<in> set (mapTxLockVotes (SyncTransaction env False t (BlockAtHeight h) st))
      \<and> fst e = vote_GetHash v
    \<longrightarrow> nConfirmedHeight (snd e) = h
        \<and> (\<forall>kc \<in> set (mapTxLockCandidates (SyncTransaction env False t (BlockAtHeight h) st)).
              fst kc = t \<longrightarrow> cand_nConfirmedHeight (snd kc) = h))
   \<and> (ov \<in> set (mapTxLockVotesOrphan st) \<and> txHash (snd ov) = t
      \<and> e \<in> set (mapTxLockVotes (SyncTransaction env False t (BlockAtHeight h) st))
      \<and> fst e = fst ov
    \<longrightarrow> nConfirmedHeight (snd e) = h)
   \<and> set (mapTxLockVotes (snd (ResolveConflicts env k st))) \<subseteq> set (mapTxLockVotes st)
   \<and> set (mapTxLockVotes (TryToFinalizeLockCandidate env k st)) \<subseteq> set (mapTxLockVotes st)"
proof (intro conjI impI)
  assume a: "sm_find t (mapTxLockCandidates st) = Some c
      \<and> (outp, l) \<in> set (mapOutPointLocks c) \<and> (mn, v) \<in> set (mapMasternodeVotes l)
      \<and> e \<in> set (mapTxLockVotes (SyncTransaction env False t (BlockAtHeight h) st))
      \<and> fst e = vote_GetHash v"
  then have "nConfirmedHeight (snd e) = h
    \<and> (\<forall>kc \<in> set (mapTxLockCandidates (SyncTransaction env False t (BlockAtHeight h) st)).
          fst kc = t \<longrightarrow> cand_nConfirmedHeight (snd kc) = h)"
    by (intro SyncTransaction_propagates[of t st c outp l mn v e env h]) simp_all
  then show "nConfirmedHeight (snd e) = h"
    and "\<forall>kc \<in> set (mapTxLockCandidates (SyncTransaction env False t (BlockAtHeight h) st)).
          fst kc = t \<longrightarrow> cand_nConfirmedHeight (snd kc) = h" by simp_all
next
  assume a: "ov \<in> set (mapTxLockVotesOrphan st) \<and> txHash (snd ov) = t
      \<and> e \<in> set (mapTxLockVotes (SyncTransaction env False t (BlockAtHeight h) st))
      \<and> fst e = fst ov"
  obtain st1 where sync: "SyncTransaction env False t (BlockAtHeight h) st
               = fold (sync_orphan env t h) (mapTxLockVotesOrphan st1) st1"
    and orph: "mapTxLockVotesOrphan st1 = mapTxLockVotesOrphan st"
    by (cases "sm_find t (mapTxLockCandidates st)") (simp_all add: SyncTransaction_def Let_def)
  have "\<forall>e \<in> set (mapTxLockVotes st1). fst e \<in> {} \<longrightarrow> nConfirmedHeight (snd e) = h" by simp
  from fold_sync_orphan_heights[OF this, of env t "mapTxLockVotesOrphan st1"] a
  show "nConfirmedHeight (snd e) = h" by (auto simp: sync orph)
next
  show "set (mapTxLockVotes (snd (ResolveConflicts env k st))) \<subseteq> set (mapTxLockVotes st)"
    by (rule ResolveConflicts_votes)
next
  show "set (mapTxLockVotes (TryToFinalizeLockCandidate env k st)) \<subseteq> set (mapTxLockVotes st)"
    by (rule TryToFinalize_votes)
qed


theorem confirmed_height_reaches_votes_witness:
  "map_option nConfirmedHeight
     (sm_find (vote_GetHash (example_vote 7 1 100))
        (mapTxLockVotes (SyncTransaction example_env False 7 (BlockAtHeight 95) locked_engine)))
   = Some 95"
proof -
  let ?c = "example_candidate 7 [1] 99990000 [100, 101, 102, 103, 104, 105]"
  let ?l = "snd (example_lock 7 [100, 101, 102, 103, 104, 105] 1)"
  let ?votes = "mapTxLockVotes (SyncTransaction example_env False 7 (BlockAtHeight 95) locked_engine)"
  have c: "sm_find 7 (mapTxLockCandidates locked_engine) = Some ?c"
    by (simp add: locked_engine_facts sm_find_def)
  have l: "((1, 0), ?l) \<in> set (mapOutPointLocks ?c)"
    by (simp add: example_candidate_def example_lock_def)
  have v: "((100, 0), example_vote 7 1 100) \<in> set (mapMasternodeVotes ?l)"
    by (simp add: example_lock_def)
  have "sm_find (vote_GetHash (example_vote 7 1 100)) ?votes \<noteq> None"
    by code_simp
  then obtain w where w: "sm_find (vote_GetHash (example_vote 7 1 100)) ?votes = Some w"
    by blast
  then have mem: "(vote_GetHash (example_vote 7 1 100), w) \<in> set ?votes"
    by (simp add: sm_find_def map_of_SomeD)
  from confirmed_height_reaches_votes
      [of 7 locked_engine ?c "(1, 0)" ?l "(100, 0)" "example_vote 7 1 100"
          "(vote_GetHash (example_vote 7 1 100), w)" example_env 95]
    c l v mem
  have "nConfirmedHeight w = 95" by simp
  with w show ?thesis by simp
qed

subsection \<open>No masternode votes twice on one input\<close>

text \<open>Locks\<close>

lemma distinct_keys_sm_insert:
  "\<not> sm_count k m \<Longrightarrow> distinct (map fst m) \<Longrightarrow> distinct (map fst (sm_insert k v m))"
  by (induction k v m rule: sm_insert.induct) (auto simp: sm_count_def)

lemma lock_ok_one_vote:
  assumes "lock_ok l"
  shows "length (votes_of_signer l mn) \<le> 1"
proof -
  have "length (filter (\<lambda>e. outpointMasternode (snd e) = mn) m) \<le> 1"
    if "distinct (map fst m)" "list_all (\<lambda>e. outpointMasternode (snd e) = fst e) m"
    for m :: "(COutPoint \<times> CTxLockVote) list"
    using that
  proof (induction m)
    case Nil
    then show ?case by simp
  next
    case (Cons e m)
    have "filter (\<lambda>e. outpointMasternode (snd e) = mn) m = []" if "outpointMasternode (snd e) = mn"
    proof -
      have "\<forall>x \<in> set m. outpointMasternode (snd x) \<noteq> mn"
        using Cons.prems that by (auto simp: list_all_iff image_iff)
      then show ?thesis by (simp add: filter_empty_conv)
    qed
    with Cons show ?case by auto
  qed
  with assms show ?thesis by (simp add: lock_ok_def votes_of_signer_def)
qed

lemma lock_ok_AddVote: "lock_ok l \<Longrightarrow> lock_ok (snd (AddVote vote l))"
  using set_sm_insert[of "outpointMasternode vote" vote "mapMasternodeVotes l"]
  by (auto simp: AddVote_def lock_ok_def distinct_keys_sm_insert list_all_iff)

lemma lock_ok_Mark: "lock_ok (MarkAsAttacked l) = lock_ok l"
  by (simp add: MarkAsAttacked_def lock_ok_def)

lemma lock_ok_SetConfirmedHeight: "lock_ok l \<Longrightarrow> lock_ok (lock_SetConfirmedHeight h l)"
  by (simp add: lock_SetConfirmedHeight_def lock_ok_def list_all_iff comp_def
        vote_SetConfirmedHeight_def)

lemma lock_ok_new: "lock_ok (COutPointLock_new outp)"
  by (simp add: COutPointLock_new_def lock_ok_def)

text \<open>Candidates\<close>

lemma list_all_sm_modify:
  "list_all P m \<Longrightarrow> (\<And>k' v. P (k', v) \<Longrightarrow> P (k', f v)) \<Longrightarrow> list_all P (sm_modify k f m)"
  by (induction m) (auto simp: sm_modify_def)

lemma list_all_sm_insert:
  "list_all P m \<Longrightarrow> P (k, v) \<Longrightarrow> list_all P (sm_insert k v m)"
  using set_sm_insert[of k v m] by (auto simp: list_all_iff)

lemma list_all_subset: "set m' \<subseteq> set m \<Longrightarrow> list_all P m \<Longrightarrow> list_all P m'"
  by (auto simp: list_all_iff)

lemma cand_ok_Mark: "cand_ok c \<Longrightarrow> cand_ok (MarkOutpointAsAttacked outp c)"
  by (auto simp: cand_ok_def MarkOutpointAsAttacked_def lock_ok_Mark intro!: list_all_sm_modify)

lemma cand_ok_AddVote: "cand_ok c \<Longrightarrow> cand_ok (snd (cand_AddVote vote c))"
  by (auto simp: cand_ok_def cand_AddVote_def lock_ok_AddVote
           split: option.splits intro!: list_all_sm_modify)

lemma cand_ok_SetConfirmedHeight: "cand_ok c \<Longrightarrow> cand_ok (cand_SetConfirmedHeight h c)"
  by (simp add: cand_ok_def cand_SetConfirmedHeight_def list_all_iff lock_ok_SetConfirmedHeight)

lemma cand_ok_AddOutPointLock: "cand_ok c \<Longrightarrow> cand_ok (AddOutPointLock outp c)"
  by (simp add: cand_ok_def AddOutPointLock_def list_all_sm_insert lock_ok_new)

lemma cand_ok_fold_AddOutPointLock: "cand_ok c \<Longrightarrow> cand_ok (fold AddOutPointLock outps c)"
  by (induction outps arbitrary: c) (simp_all add: cand_ok_AddOutPointLock)

lemma cand_ok_request: "cand_ok (c\<lparr>txLockRequest := r\<rparr>) = cand_ok c"
  by (simp add: cand_ok_def)

lemma cand_ok_new: "cand_ok (CTxLockCandidate_new env r)"
  by (simp add: cand_ok_def CTxLockCandidate_new_def)

text \<open>States\<close>

lemma votes_keyed_cong:
  "mapTxLockCandidates st' = mapTxLockCandidates st \<Longrightarrow> votes_keyed st' = votes_keyed st"
  by (simp add: votes_keyed_def)

lemma votes_keyed_subset:
  "set (mapTxLockCandidates st') \<subseteq> set (mapTxLockCandidates st) \<Longrightarrow> votes_keyed st
   \<Longrightarrow> votes_keyed st'"
  unfolding votes_keyed_def by (rule list_all_subset)

lemma votes_keyed_modify:
  "votes_keyed st \<Longrightarrow> (\<And>c. cand_ok c \<Longrightarrow> cand_ok (f c)) \<Longrightarrow> votes_keyed (modify_candidate k f st)"
  by (auto simp: votes_keyed_def intro!: list_all_sm_modify)

lemma votes_keyed_insert:
  "votes_keyed st \<Longrightarrow> cand_ok c \<Longrightarrow>
   votes_keyed (st\<lparr>mapTxLockCandidates := sm_insert k c (mapTxLockCandidates st)\<rparr>)"
  by (simp add: votes_keyed_def list_all_sm_insert)

lemma votes_keyed_emit [simp]: "votes_keyed (emit e st) = votes_keyed st"
  by (rule votes_keyed_cong) simp

lemma votes_keyed_CheckAndRemove: "votes_keyed st \<Longrightarrow> votes_keyed (CheckAndRemove env st)"
  using CheckAndRemove_candidates_subset by (rule votes_keyed_subset)

lemma votes_keyed_drop_both: "votes_keyed st \<Longrightarrow> votes_keyed (snd (drop_both env t t' st))"
proof -
  assume inv: "votes_keyed st"
  let ?marked = "modify_candidate t' (cand_SetConfirmedHeight 0)
                   (modify_candidate t (cand_SetConfirmedHeight 0) st)"
  have "votes_keyed ?marked"
    by (intro votes_keyed_modify inv cand_ok_SetConfirmedHeight)
  then have sw: "votes_keyed (CheckAndRemove env ?marked)" by (rule votes_keyed_CheckAndRemove)
  have "votes_keyed ((CheckAndRemove env ?marked)\<lparr>mapLockRequestRejected := r\<rparr>)" for r
    using sw by (simp add: votes_keyed_def)
  then show ?thesis using inv by (simp add: drop_both_def Let_def split: option.splits)
qed


lemma votes_keyed_ResolveConflicts_vin:
  "votes_keyed st \<Longrightarrow> ResolveConflicts_vin env t ins st = Some r \<Longrightarrow> votes_keyed (snd r)"
  by (induction ins) (auto split: option.splits if_splits simp: votes_keyed_drop_both)

lemma votes_keyed_ResolveConflicts:
  "votes_keyed st \<Longrightarrow> votes_keyed (snd (ResolveConflicts env k st))"
  by (auto simp: ResolveConflicts_def split: option.splits
           dest: votes_keyed_ResolveConflicts_vin)

lemma LockTransactionInputs_candidates [simp]:
  "mapTxLockCandidates (LockTransactionInputs env k st) = mapTxLockCandidates st"
  by (simp add: LockTransactionInputs_def split: option.splits)

lemma UpdateLockedTransaction_candidates [simp]:
  "mapTxLockCandidates (UpdateLockedTransaction env k st) = mapTxLockCandidates st"
  by (simp add: UpdateLockedTransaction_def Let_def split: option.splits)

lemma votes_keyed_TryToFinalize:
  "votes_keyed st \<Longrightarrow> votes_keyed (TryToFinalizeLockCandidate env k st)"
proof -
  assume inv: "votes_keyed st"
  have "votes_keyed (UpdateLockedTransaction env k (LockTransactionInputs env k s))"
    if "votes_keyed s" for s
    using that by (simp add: votes_keyed_def)
  with inv votes_keyed_ResolveConflicts[OF inv, of env k] show ?thesis
    by (auto simp: TryToFinalizeLockCandidate_def split: option.splits prod.splits bool.splits)
qed

lemma votes_keyed_CreateTxLockCandidate:
  "votes_keyed st \<Longrightarrow> votes_keyed (snd (CreateTxLockCandidate env req st))"
  by (auto simp: CreateTxLockCandidate_def Let_def cand_ok_request cand_ok_new
           split: option.splits
           intro!: votes_keyed_insert votes_keyed_modify cand_ok_fold_AddOutPointLock)

lemma votes_keyed_CreateEmpty:
  "votes_keyed st \<Longrightarrow> votes_keyed (CreateEmptyTxLockCandidate env t st)"
  by (auto simp: CreateEmptyTxLockCandidate_def cand_ok_new intro!: votes_keyed_insert)

lemma votes_keyed_Vote_store:
  "votes_keyed st \<Longrightarrow> votes_keyed (Vote_store k t vote st)"
proof -
  assume inv: "votes_keyed st"
  let ?st1 = "st\<lparr>mapTxLockVotes := sm_insert (vote_GetHash vote) vote (mapTxLockVotes st)\<rparr>"
  have 1: "votes_keyed ?st1" using inv by (simp add: votes_keyed_def)
  have 2: "votes_keyed (modify_candidate k (\<lambda>c. snd (cand_AddVote vote c)) ?st1)"
    by (intro votes_keyed_modify 1 cand_ok_AddVote)
  have 3: "votes_keyed (s\<lparr>mapVotedOutpoints := x\<rparr>) = votes_keyed s" for s x
    by (simp add: votes_keyed_def)
  show ?thesis
    using 1 2 by (auto simp: Vote_store_def Let_def 3 split: option.splits)
qed

lemma votes_keyed_Vote_loop:
  "votes_keyed st \<Longrightarrow> votes_keyed (Vote_loop env k t outps st)"
  by (induction outps arbitrary: st)
     (auto split: option.splits simp: votes_keyed_Vote_store)

lemma votes_keyed_Vote: "votes_keyed st \<Longrightarrow> votes_keyed (Vote env k st)"
  by (auto simp: Vote_def votes_keyed_Vote_loop split: option.splits)

lemma votes_keyed_conflicting_vote_check:
  "votes_keyed st \<Longrightarrow> votes_keyed (conflicting_vote_check vote h st)"
  by (auto simp: conflicting_vote_check_def split: option.splits
           intro!: votes_keyed_modify cand_ok_Mark)

lemma votes_keyed_fold_conflicting:
  "votes_keyed st \<Longrightarrow> votes_keyed (fold (conflicting_vote_check vote) hs st)"
  by (induction hs arbitrary: st) (simp_all add: votes_keyed_conflicting_vote_check)

lemma votes_keyed_record_voted_outpoint:
  "votes_keyed st \<Longrightarrow> votes_keyed (record_voted_outpoint vote st)"
proof -
  assume inv: "votes_keyed st"
  have 3: "votes_keyed (s\<lparr>mapVotedOutpoints := x\<rparr>) = votes_keyed s" for s x
    by (simp add: votes_keyed_def)
  show ?thesis
    using inv by (auto simp: record_voted_outpoint_def Let_def 3 votes_keyed_fold_conflicting
        split: option.splits)
qed

lemma votes_keyed_orphan_rate_check:
  "votes_keyed st \<Longrightarrow> votes_keyed (snd (orphan_rate_check env vote st))"
  by (auto simp: orphan_rate_check_def Let_def votes_keyed_def split: option.splits)

lemma votes_keyed_attach:
  "votes_keyed st \<Longrightarrow> votes_keyed (snd (ProcessTxLockVote_attach env vote c st))"
  by (auto simp: ProcessTxLockVote_attach_def Let_def split: option.splits
           intro!: votes_keyed_TryToFinalize votes_keyed_modify cand_ok_AddVote
                   votes_keyed_record_voted_outpoint)

text \<open>The recursion: each body keeps the invariant if the function it calls does.\<close>

lemma votes_keyed_orphan:
  assumes "votes_keyed st"
    and "\<And>r s res. votes_keyed s \<Longrightarrow> preq r s = Some res \<Longrightarrow> votes_keyed (snd res)"
    and "ProcessTxLockVote_orphan preq env vote st = Some res"
  shows "votes_keyed (snd res)"
proof -
  let ?st1 = "CreateEmptyTxLockCandidate env (txHash vote) st"
  let ?st2 = "?st1\<lparr>mapTxLockVotesOrphan :=
                     sm_set (vote_GetHash vote) vote (mapTxLockVotesOrphan ?st1)\<rparr>"
  have 2: "votes_keyed ?st2"
    using votes_keyed_CreateEmpty[OF assms(1), of env "txHash vote"] by (simp add: votes_keyed_def)
  show ?thesis
    using assms(3) assms(1) 2 assms(2)[OF 2]
      votes_keyed_orphan_rate_check[OF 2, of env vote]
      votes_keyed_orphan_rate_check[OF assms(1), of env vote]
    by (auto simp: ProcessTxLockVote_orphan_def Let_def split: if_splits option.splits)
qed

lemma votes_keyed_body:
  assumes "votes_keyed st"
    and "\<And>r s res. votes_keyed s \<Longrightarrow> preq r s = Some res \<Longrightarrow> votes_keyed (snd res)"
    and "ProcessTxLockVote_body preq env vote st = Some res"
  shows "votes_keyed (snd res)"
proof (cases "vote_IsValid env vote")
  case False
  have "votes_keyed (vote_IsValid_effect env vote st)"
    using assms(1) by (simp add: votes_keyed_def)
  with False assms(3) show ?thesis by (auto simp: ProcessTxLockVote_body_def)
next
  case True
  let ?st = "emit (RelayInv (vote_GetHash vote)) st"
  have e: "votes_keyed ?st" using assms(1) by simp
  consider (orphan) "ProcessTxLockVote_orphan preq env vote ?st = Some res"
    | (attach) c where "res = ProcessTxLockVote_attach env vote c ?st"
    using assms(3) True
    by (auto simp: ProcessTxLockVote_body_def Let_def split: option.splits if_splits)
  then show ?thesis
  proof cases
    case orphan
    from e assms(2) orphan show ?thesis by (rule votes_keyed_orphan)
  next
    case attach
    then show ?thesis using votes_keyed_attach[OF e] by simp
  qed
qed

lemma votes_keyed_orphans_loop:
  assumes "\<And>v s res. votes_keyed s \<Longrightarrow> pvote v s = Some res \<Longrightarrow> votes_keyed (snd res)"
  shows "votes_keyed st \<Longrightarrow> ProcessOrphanTxLockVotes_loop pvote hs st = Some st'
         \<Longrightarrow> votes_keyed st'"
proof (induction hs arbitrary: st)
  case Nil
  then show ?case by simp
next
  case (Cons h hs)
  show ?case
  proof (cases "sm_find h (mapTxLockVotesOrphan st)")
    case None
    with Cons show ?thesis by simp
  next
    case (Some vote)
    with Cons.prems(2) obtain res where r: "pvote vote st = Some res"
      by (auto split: option.splits)
    from assms[OF Cons.prems(1) r] have k: "votes_keyed (snd res)" .
    then have k': "votes_keyed ((snd res)\<lparr>mapTxLockVotesOrphan := x\<rparr>)" for x
      by (simp add: votes_keyed_def)
    show ?thesis
      using Cons.prems(2) Some r Cons.IH[OF k] Cons.IH[OF k']
      by (auto split: if_splits)
  qed
qed

lemma votes_keyed_request_body:
  assumes "votes_keyed st"
    and "\<And>v s res. votes_keyed s \<Longrightarrow> pvote v s = Some res \<Longrightarrow> votes_keyed (snd res)"
    and "ProcessTxLockRequest_body pvote env req st = Some res"
  shows "votes_keyed (snd res)"
proof -
  obtain ok st1 where cr: "CreateTxLockCandidate env req st = (ok, st1)"
    by (cases "CreateTxLockCandidate env req st")
  have 1: "votes_keyed st1"
    using votes_keyed_CreateTxLockCandidate[OF assms(1), of env req] by (simp add: cr)
  have 2: "votes_keyed (Vote env (GetHash req) st1)" using 1 by (rule votes_keyed_Vote)
  show ?thesis
  proof (cases ok)
    case False
    with assms(3) cr 1 show ?thesis by (auto simp: ProcessTxLockRequest_body_def)
  next
    case True
    with assms(3) cr obtain st3 where
      l: "ProcessOrphanTxLockVotes pvote (Vote env (GetHash req) st1) = Some st3"
      and r: "res = (True, TryToFinalizeLockCandidate env (GetHash req) st3)"
      by (auto simp: ProcessTxLockRequest_body_def split: option.splits)
    from votes_keyed_orphans_loop[of pvote, OF assms(2) 2 l[unfolded ProcessOrphanTxLockVotes_def]]
    have "votes_keyed st3" .
    then show ?thesis unfolding r by (simp add: votes_keyed_TryToFinalize)
  qed
qed

lemma votes_keyed_depth:
  "votes_keyed st \<Longrightarrow> ProcessTxLockVote_depth n env vote st = Some res \<Longrightarrow> votes_keyed (snd res)"
proof (induction n arbitrary: st vote res)
  case 0
  then show ?case by simp
next
  case (Suc n)
  have req: "votes_keyed (snd res')"
    if "votes_keyed s" "ProcessTxLockRequest_body (ProcessTxLockVote_depth n env) env r s = Some res'"
    for r s res'
    using that(1) _ that(2) by (rule votes_keyed_request_body) (rule Suc.IH)
  from Suc.prems(2) have b: "ProcessTxLockVote_body
       (ProcessTxLockRequest_body (ProcessTxLockVote_depth n env) env) env vote st = Some res"
    by simp
  show ?case by (rule votes_keyed_body[OF Suc.prems(1) _ b]) (rule req)
qed

lemma votes_keyed_ProcessMessage:
  "votes_keyed st \<Longrightarrow> ProcessMessage env nVersion msg st = Some st' \<Longrightarrow> votes_keyed st'"
proof -
  assume inv: "votes_keyed st" and pm: "ProcessMessage env nVersion msg st = Some st'"
  have 1: "votes_keyed (st\<lparr>mapTxLockVotes := x\<rparr>)" for x using inv by (simp add: votes_keyed_def)
  have 2: "votes_keyed (snd res)"
    if "ProcessTxLockVote env vote (st\<lparr>mapTxLockVotes := x\<rparr>) = Some res" for vote x res
    using 1 that unfolding ProcessTxLockVote_def by (rule votes_keyed_depth)
  show ?thesis
    using pm inv 2
    by (auto simp: ProcessMessage_def split: if_splits NetMsg.splits option.splits)
qed

lemma votes_keyed_ProcessTxLockRequest:
  assumes "votes_keyed st" and "ProcessTxLockRequest env req st = Some res"
  shows "votes_keyed (snd res)"
  by (rule votes_keyed_request_body[OF assms(1) _ assms(2)[unfolded ProcessTxLockRequest_def]])
     (rule votes_keyed_depth)

lemma votes_keyed_SyncTransaction:
  "votes_keyed st \<Longrightarrow> votes_keyed (SyncTransaction env cb t pblock st)"
proof -
  assume inv: "votes_keyed st"
  have c: "mapTxLockCandidates (SyncTransaction env cb t pblock st) = mapTxLockCandidates st
          \<or> (\<exists>h. mapTxLockCandidates (SyncTransaction env cb t pblock st)
               = sm_modify t (cand_SetConfirmedHeight h) (mapTxLockCandidates st))"
    by (auto simp: SyncTransaction_def Let_def split: option.splits)
  then show ?thesis
    using inv votes_keyed_modify[OF inv, of "cand_SetConfirmedHeight _" t]
    by (auto simp: votes_keyed_def cand_ok_SetConfirmedHeight)
qed

lemma votes_keyed_reachable: "reachable st \<Longrightarrow> votes_keyed st"
proof (induction rule: reachable.induct)
  case (reachable_init h)
  show ?case by (simp add: votes_keyed_def engine_init_def)
next
  case (reachable_ProcessMessage st env nVersion msg st')
  then show ?case by (auto intro: votes_keyed_ProcessMessage)
next
  case (reachable_ProcessTxLockRequest st env req r)
  then show ?case by (auto intro: votes_keyed_ProcessTxLockRequest)
next
  case (reachable_CheckAndRemove st env)
  then show ?case by (simp add: votes_keyed_CheckAndRemove)
next
  case (reachable_UpdatedBlockTip st h)
  then show ?case by (simp add: votes_keyed_def UpdatedBlockTip_def)
next
  case (reachable_SyncTransaction st env IsCoinBase t pblock)
  then show ?case by (simp add: votes_keyed_SyncTransaction)
next
  case (reachable_AcceptLockRequest st req)
  then show ?case by (simp add: votes_keyed_def AcceptLockRequest_def)
next
  case (reachable_RejectLockRequest st req)
  then show ?case by (simp add: votes_keyed_def RejectLockRequest_def)
qed

lemma empty_engine_init: "empty_engine = engine_init 100"
  by (simp add: empty_engine_def engine_init_def)

lemma reachable_feed_request: "reachable st \<Longrightarrow> reachable (feed_request env req st)"
  by (auto simp: feed_request_def dest: reachable_ProcessTxLockRequest split: option.splits)

lemma reachable_feed_votes: "reachable st \<Longrightarrow> reachable (feed_votes env votes st)"
  unfolding feed_votes_def
proof (induction votes arbitrary: st)
  case Nil
  then show ?case by simp
next
  case (Cons v votes)
  have "reachable (case ProcessMessage env 70208 (TXLOCKVOTE v) st of None \<Rightarrow> st | Some s' \<Rightarrow> s')"
    using Cons.prems by (auto intro: reachable_ProcessMessage split: option.splits)
  then show ?case using Cons.IH by simp
qed

lemma reachable_locked_engine: "reachable locked_engine"
  unfolding locked_engine_def empty_engine_init
  by (intro reachable_feed_votes reachable_feed_request reachable_init)

text \<open>
  Claim C1. \<^verbatim>\<open>COutPointLock::AddVote\<close> returns false and leaves the lock unchanged when
  the vote's masternode has voted already; otherwise it returns true and the vote is
  then stored under its masternode. In every state the engine reaches from an empty one
  by \<^verbatim>\<open>ProcessMessage\<close>, \<^verbatim>\<open>ProcessTxLockRequest\<close>, \<^verbatim>\<open>CheckAndRemove\<close>,
  \<^verbatim>\<open>UpdatedBlockTip\<close>, \<^verbatim>\<open>SyncTransaction\<close>, \<^verbatim>\<open>AcceptLockRequest\<close> and
  \<^verbatim>\<open>RejectLockRequest\<close>, each lock of each candidate holds at most one vote signed by
  any given masternode.
\<close>

theorem no_double_vote:
  "(HasMasternodeVoted l (outpointMasternode vote) \<longrightarrow> AddVote vote l = (False, l))
   \<and> (\<not> HasMasternodeVoted l (outpointMasternode vote) \<longrightarrow>
        AddVote vote l
          = (True, l\<lparr>mapMasternodeVotes :=
                       sm_insert (outpointMasternode vote) vote (mapMasternodeVotes l)\<rparr>)
        \<and> sm_find (outpointMasternode vote) (mapMasternodeVotes (snd (AddVote vote l))) = Some vote)
   \<and> (reachable st \<longrightarrow> (t, c) \<in> set (mapTxLockCandidates st)
        \<longrightarrow> (outp, l') \<in> set (mapOutPointLocks c)
        \<longrightarrow> length (votes_of_signer l' mn) \<le> 1)"
proof (intro conjI impI)
  assume "reachable st" and c: "(t, c) \<in> set (mapTxLockCandidates st)"
    and l: "(outp, l') \<in> set (mapOutPointLocks c)"
  then have "votes_keyed st" by (simp add: votes_keyed_reachable)
  with c have "cand_ok c" by (force simp: votes_keyed_def list_all_iff)
  with l have "lock_ok l'" by (force simp: cand_ok_def list_all_iff)
  then show "length (votes_of_signer l' mn) \<le> 1" by (rule lock_ok_one_vote)
qed (simp_all add: AddVote_def HasMasternodeVoted_def sm_find_insert_new)

theorem no_double_vote_witness:
  "AddVote (example_vote 7 1 100) (snd (example_lock 7 [100] 1))
     = (False, snd (example_lock 7 [100] 1))
   \<and> fst (AddVote (example_vote 7 1 101) (snd (example_lock 7 [100] 1)))
   \<and> map fst (mapMasternodeVotes (snd (AddVote (example_vote 7 1 101) (snd (example_lock 7 [100] 1)))))
       = [(100, 0), (101, 0)]
   \<and> length (votes_of_signer (snd (example_lock 7 [100, 101, 102, 103, 104, 105] 1)) (100, 0)) \<le> 1"
proof -
  let ?l = "snd (example_lock 7 [100] 1)"
  have h1: "HasMasternodeVoted ?l (outpointMasternode (example_vote 7 1 100))"
    by (simp add: HasMasternodeVoted_def example_lock_def example_vote_def sm_count_def)
  have h2: "\<not> HasMasternodeVoted ?l (outpointMasternode (example_vote 7 1 101))"
    by (simp add: HasMasternodeVoted_def example_lock_def example_vote_def sm_count_def)
  have c: "(7, example_candidate 7 [1] 99990000 [100, 101, 102, 103, 104, 105])
             \<in> set (mapTxLockCandidates locked_engine)"
    by (simp add: locked_engine_facts)
  have l: "example_lock 7 [100, 101, 102, 103, 104, 105] 1
             \<in> set (mapOutPointLocks (example_candidate 7 [1] 99990000 [100, 101, 102, 103, 104, 105]))"
    by (simp add: example_candidate_def)
  have l': "((1, 0), snd (example_lock 7 [100, 101, 102, 103, 104, 105] 1))
             \<in> set (mapOutPointLocks (example_candidate 7 [1] 99990000 [100, 101, 102, 103, 104, 105]))"
    using l by (simp add: example_lock_def)
  from no_double_vote[of ?l "example_vote 7 1 100" locked_engine 7
        "example_candidate 7 [1] 99990000 [100, 101, 102, 103, 104, 105]" "(1, 0)"
        "snd (example_lock 7 [100, 101, 102, 103, 104, 105] 1)" "(100, 0)"]
  have a: "AddVote (example_vote 7 1 100) ?l = (False, ?l)"
    and b: "length (votes_of_signer (snd (example_lock 7 [100, 101, 102, 103, 104, 105] 1)) (100, 0)) \<le> 1"
    using h1 reachable_locked_engine c l' by blast+
  from no_double_vote[of ?l "example_vote 7 1 101"] h2
  have d: "AddVote (example_vote 7 1 101) ?l
            = (True, ?l\<lparr>mapMasternodeVotes :=
                 sm_insert (outpointMasternode (example_vote 7 1 101)) (example_vote 7 1 101)
                   (mapMasternodeVotes ?l)\<rparr>)"
    by blast
  have e: "map fst (mapMasternodeVotes (snd (AddVote (example_vote 7 1 101) ?l))) = [(100, 0), (101, 0)]"
    unfolding d by (simp add: example_lock_def example_vote_def)
  show ?thesis using a b d e by simp
qed

subsection \<open>Vote ingestion returns\<close>

text \<open>Frames: what each step does to the orphan map.\<close>

lemma set_sm_set: "set (sm_set k v m) \<subseteq> insert (k, v) (set m)"
  by (induction k v m rule: sm_set.induct) auto

lemma keys_sm_set [simp]: "fst ` set (sm_set k v m) = insert k (fst ` set m)"
  by (induction k v m rule: sm_set.induct) (simp_all add: insert_commute)

lemma sm_count_set [simp]: "sm_count k' (sm_set k v m) = (k' = k \<or> sm_count k' m)"
  by (simp add: sm_count_def)

lemma orphans_CreateEmpty [simp]:
  "mapTxLockVotesOrphan (CreateEmptyTxLockCandidate env t st) = mapTxLockVotesOrphan st"
  by (simp add: CreateEmptyTxLockCandidate_def)

lemma orphans_CreateTxLockCandidate [simp]:
  "mapTxLockVotesOrphan (snd (CreateTxLockCandidate env req st)) = mapTxLockVotesOrphan st"
  by (simp add: CreateTxLockCandidate_def Let_def split: option.splits)

lemma orphans_Vote_store [simp]:
  "mapTxLockVotesOrphan (Vote_store k t vote st) = mapTxLockVotesOrphan st"
  by (simp add: Vote_store_def Let_def split: option.splits)

lemma orphans_Vote_loop [simp]:
  "mapTxLockVotesOrphan (Vote_loop env k t outps st) = mapTxLockVotesOrphan st"
  by (induction outps arbitrary: st) (auto split: option.splits)

lemma orphans_Vote [simp]: "mapTxLockVotesOrphan (Vote env k st) = mapTxLockVotesOrphan st"
  by (simp add: Vote_def split: option.splits)

lemma orphans_record_voted_outpoint [simp]:
  "mapTxLockVotesOrphan (record_voted_outpoint vote st) = mapTxLockVotesOrphan st"
  by (simp add: record_voted_outpoint_def Let_def split: option.splits)

lemma orphans_orphan_rate_check [simp]:
  "mapTxLockVotesOrphan (snd (orphan_rate_check env vote st)) = mapTxLockVotesOrphan st"
  by (simp add: orphan_rate_check_def Let_def split: option.splits)

lemma orphans_vote_IsValid_effect [simp]:
  "mapTxLockVotesOrphan (vote_IsValid_effect env vote st) = mapTxLockVotesOrphan st"
  by (simp add: vote_IsValid_effect_def)

lemma orphans_LockTransactionInputs [simp]:
  "mapTxLockVotesOrphan (LockTransactionInputs env k st) = mapTxLockVotesOrphan st"
  by (simp add: LockTransactionInputs_def split: option.splits)

lemma orphans_UpdateLockedTransaction [simp]:
  "mapTxLockVotesOrphan (UpdateLockedTransaction env k st) = mapTxLockVotesOrphan st"
  by (simp add: UpdateLockedTransaction_def Let_def split: option.splits)

lemma CheckAndRemove_orphans_subset:
  "set (mapTxLockVotesOrphan (CheckAndRemove env st)) \<subseteq> set (mapTxLockVotesOrphan st)"
proof (cases "IsMasternodeListSynced env")
  case True
  let ?s2 = "remove_expired_votes env (remove_expired_candidates env st)"
  have "mapTxLockVotesOrphan ?s2 = mapTxLockVotesOrphan st"
    by (simp add: remove_expired_votes_def remove_expired_candidates_facts)
  then show ?thesis
    using True fold_remove_timed_out_orphan_orphans[of env "mapTxLockVotesOrphan ?s2" ?s2]
    by (simp add: CheckAndRemove_def remove_timed_out_masternode_orphans_def
          remove_failed_votes_def remove_timed_out_orphans_def)
next
  case False
  then show ?thesis by (simp add: CheckAndRemove_def)
qed

lemma drop_both_orphans:
  "set (mapTxLockVotesOrphan (snd (drop_both env t t' st))) \<subseteq> set (mapTxLockVotesOrphan st)"
  using CheckAndRemove_orphans_subset[of env
      "modify_candidate t' (cand_SetConfirmedHeight 0) (modify_candidate t (cand_SetConfirmedHeight 0) st)"]
  by (auto simp: drop_both_def Let_def split: option.splits)

lemma ResolveConflicts_vin_orphans:
  "ResolveConflicts_vin env t ins st = Some r \<Longrightarrow>
   set (mapTxLockVotesOrphan (snd r)) \<subseteq> set (mapTxLockVotesOrphan st)"
proof (induction ins)
  case Nil
  then show ?case by simp
next
  case (Cons p ins)
  then show ?case
    using drop_both_orphans[of env t _ st]
    by (auto split: option.splits if_splits)
qed

lemma ResolveConflicts_orphans:
  "set (mapTxLockVotesOrphan (snd (ResolveConflicts env k st))) \<subseteq> set (mapTxLockVotesOrphan st)"
  using ResolveConflicts_vin_orphans[of env]
  by (auto simp: ResolveConflicts_def split: option.splits)

lemma TryToFinalize_orphans:
  "set (mapTxLockVotesOrphan (TryToFinalizeLockCandidate env k st)) \<subseteq> set (mapTxLockVotesOrphan st)"
  using ResolveConflicts_orphans[of env k st]
  by (auto simp: TryToFinalizeLockCandidate_def split: option.splits prod.splits bool.splits)

lemma attach_orphans:
  "set (mapTxLockVotesOrphan (snd (ProcessTxLockVote_attach env vote c st)))
     \<subseteq> set (mapTxLockVotesOrphan st)"
proof -
  have "set (mapTxLockVotesOrphan (TryToFinalizeLockCandidate env k
               (modify_candidate k' f (record_voted_outpoint vote st))))
          \<subseteq> set (mapTxLockVotesOrphan st)" for k k' f
    using TryToFinalize_orphans[of env k "modify_candidate k' f (record_voted_outpoint vote st)"]
    by simp
  then show ?thesis
    by (auto simp: ProcessTxLockVote_attach_def Let_def split: option.splits)
qed

lemma wf_orphans_subset:
  "set (mapTxLockVotesOrphan st') \<subseteq> set (mapTxLockVotesOrphan st) \<Longrightarrow> wf_orphans st
   \<Longrightarrow> wf_orphans st'"
  unfolding wf_orphans_def by (rule list_all_subset)

lemma wf_orphans_cong:
  "mapTxLockVotesOrphan st' = mapTxLockVotesOrphan st \<Longrightarrow> wf_orphans st' = wf_orphans st"
  by (simp add: wf_orphans_def)

lemma wf_orphans_lookup:
  "wf_orphans st \<Longrightarrow> sm_find h (mapTxLockVotesOrphan st) = Some vote \<Longrightarrow> vote_GetHash vote = h"
  by (force simp: wf_orphans_def list_all_iff sm_find_def dest: map_of_SomeD)

text \<open>A vote taken from the orphan map is processed at depth 1.\<close>

lemma ex_resI: "wf_orphans (snd x) \<Longrightarrow> \<exists>res. Some x = Some res \<and> wf_orphans (snd res)"
  by blast

lemma sm_find_Some_count: "sm_find k m = Some v \<Longrightarrow> sm_count k m"
  by (metis sm_find_None_iff option.distinct(1))

lemma body_valid:
  "vote_IsValid env vote \<Longrightarrow>
   ProcessTxLockVote_body preq env vote st
     = (case sm_find (txHash vote) (mapTxLockCandidates st) of
          None \<Rightarrow> ProcessTxLockVote_orphan preq env vote (emit (RelayInv (vote_GetHash vote)) st)
        | Some c \<Rightarrow>
            if txLockRequest c = None
            then ProcessTxLockVote_orphan preq env vote (emit (RelayInv (vote_GetHash vote)) st)
            else Some (ProcessTxLockVote_attach env vote c (emit (RelayInv (vote_GetHash vote)) st)))"
  by (simp add: ProcessTxLockVote_body_def Let_def)

lemma body_invalid:
  "\<not> vote_IsValid env vote \<Longrightarrow>
   ProcessTxLockVote_body preq env vote st = Some (False, vote_IsValid_effect env vote st)"
  by (simp add: ProcessTxLockVote_body_def)

lemma orphan_vote_returns:
  assumes "wf_orphans st" and "sm_count (vote_GetHash vote) (mapTxLockVotesOrphan st)"
  shows "\<exists>res. ProcessTxLockVote_depth (Suc n) env vote st = Some res \<and> wf_orphans (snd res)"
proof (cases "vote_IsValid env vote")
  case False
  have "wf_orphans (snd (False, vote_IsValid_effect env vote st))"
    using assms(1) by (simp add: wf_orphans_def)
  then show ?thesis using False by (simp add: body_invalid ex_resI del: snd_conv)
next
  case True
  let ?st = "emit (RelayInv (vote_GetHash vote)) st"
  let ?preq = "ProcessTxLockRequest_body (ProcessTxLockVote_depth n env) env"
  have wf: "wf_orphans ?st" using assms(1) by (simp add: wf_orphans_def)
  have known: "sm_count (vote_GetHash vote) (mapTxLockVotesOrphan ?st)" using assms(2) by simp
  have o: "ProcessTxLockVote_orphan ?preq env vote ?st = Some (orphan_rate_check env vote ?st)"
    using known by (simp add: ProcessTxLockVote_orphan_def)
  have wo: "wf_orphans (snd (orphan_rate_check env vote ?st))"
    using wf by (simp add: wf_orphans_def)
  have wa: "wf_orphans (snd (ProcessTxLockVote_attach env vote c ?st))" for c
    using attach_orphans wf by (rule wf_orphans_subset)
  show ?thesis
  proof (cases "sm_find (txHash vote) (mapTxLockCandidates ?st)")
    case None
    have "ProcessTxLockVote_depth (Suc n) env vote st = Some (orphan_rate_check env vote ?st)"
      using None o by (simp add: body_valid[OF True])
    then show ?thesis using wo by blast
  next
    case (Some c)
    show ?thesis
    proof (cases "txLockRequest c = None")
      case True
      have "ProcessTxLockVote_depth (Suc n) env vote st = Some (orphan_rate_check env vote ?st)"
        using Some True o by (simp add: body_valid[OF \<open>vote_IsValid env vote\<close>])
      then show ?thesis using wo by blast
    next
      case False
      then obtain req where req: "txLockRequest c = Some req" by blast
      have "ProcessTxLockVote_depth (Suc n) env vote st
              = Some (ProcessTxLockVote_attach env vote c ?st)"
        using Some req by (simp add: body_valid[OF \<open>vote_IsValid env vote\<close>])
      then show ?thesis using wa[of c] by blast
    qed
  qed
qed

lemma orphans_loop_returns:
  "wf_orphans st \<Longrightarrow>
   \<exists>st'. ProcessOrphanTxLockVotes_loop (ProcessTxLockVote_depth (Suc n) env) hs st = Some st'
        \<and> wf_orphans st'"
proof (induction hs arbitrary: st)
  case Nil
  then show ?case by simp
next
  case (Cons h hs)
  show ?case
  proof (cases "sm_find h (mapTxLockVotesOrphan st)")
    case None
    with Cons show ?thesis by simp
  next
    case (Some vote)
    have "vote_GetHash vote = h" using Cons.prems Some by (rule wf_orphans_lookup)
    moreover have "sm_count h (mapTxLockVotesOrphan st)"
      using Some by (rule sm_find_Some_count)
    ultimately obtain res where
      r: "ProcessTxLockVote_depth (Suc n) env vote st = Some res" and w: "wf_orphans (snd res)"
      using orphan_vote_returns[OF Cons.prems, of vote n env] by auto
    have w': "wf_orphans ((snd res)\<lparr>mapTxLockVotesOrphan := sm_erase h (mapTxLockVotesOrphan (snd res))\<rparr>)"
      using w by (auto simp: wf_orphans_def list_all_iff sm_erase_def)
    show ?thesis
      using Some r Cons.IH[OF w] Cons.IH[OF w'] by (cases "fst res") (simp_all del: ProcessTxLockVote_depth.simps)
  qed
qed

lemma request_returns:
  assumes "wf_orphans st"
  shows "\<exists>res. ProcessTxLockRequest_body (ProcessTxLockVote_depth (Suc n) env) env req st = Some res
           \<and> wf_orphans (snd res)"
proof -
  obtain ok st1 where cr: "CreateTxLockCandidate env req st = (ok, st1)"
    by (cases "CreateTxLockCandidate env req st")
  have o1: "mapTxLockVotesOrphan st1 = mapTxLockVotesOrphan st"
    using orphans_CreateTxLockCandidate[of env req st] by (simp add: cr)
  have 1: "wf_orphans st1" using assms by (simp add: wf_orphans_def o1)
  have 2: "wf_orphans (Vote env (GetHash req) st1)" using 1 by (simp add: wf_orphans_def)
  from orphans_loop_returns[OF 2, of n env] obtain st3 where
    l: "ProcessOrphanTxLockVotes (ProcessTxLockVote_depth (Suc n) env) (Vote env (GetHash req) st1)
          = Some st3" and w3: "wf_orphans st3"
    unfolding ProcessOrphanTxLockVotes_def by blast
  have "wf_orphans (TryToFinalizeLockCandidate env (GetHash req) st3)"
    using TryToFinalize_orphans w3 by (rule wf_orphans_subset)
  then show ?thesis
    using cr 1 l by (cases ok) (simp_all add: ProcessTxLockRequest_body_def del: ProcessTxLockVote_depth.simps)
qed

lemma vote_returns:
  assumes "wf_orphans st"
  shows "\<exists>res. ProcessTxLockVote_depth (Suc (Suc n)) env vote st = Some res \<and> wf_orphans (snd res)"
proof (cases "vote_IsValid env vote")
  case False
  have "wf_orphans (snd (False, vote_IsValid_effect env vote st))"
    using assms(1) by (simp add: wf_orphans_def)
  then show ?thesis using False by (simp add: body_invalid ex_resI del: snd_conv)
next
  case True
  let ?st = "emit (RelayInv (vote_GetHash vote)) st"
  let ?preq = "ProcessTxLockRequest_body (ProcessTxLockVote_depth (Suc n) env) env"
  have wf: "wf_orphans ?st" using assms by (simp add: wf_orphans_def)
  have wa: "wf_orphans (snd (ProcessTxLockVote_attach env vote c ?st))" for c
    using attach_orphans wf by (rule wf_orphans_subset)
  have orphan: "\<exists>res. ProcessTxLockVote_orphan ?preq env vote ?st = Some res \<and> wf_orphans (snd res)"
  proof (cases "sm_count (vote_GetHash vote) (mapTxLockVotesOrphan ?st)")
    case True
    have "wf_orphans (snd (orphan_rate_check env vote ?st))" using wf by (simp add: wf_orphans_def)
    then show ?thesis using True by (simp add: ProcessTxLockVote_orphan_def ex_resI)
  next
    case False
    let ?st1 = "CreateEmptyTxLockCandidate env (txHash vote) ?st"
    let ?st2 = "?st1\<lparr>mapTxLockVotesOrphan :=
                     sm_set (vote_GetHash vote) vote (mapTxLockVotesOrphan ?st1)\<rparr>"
    let ?it = "case sm_find (txHash vote) (mapLockRequestAccepted ?st2) of
                    Some r \<Rightarrow> Some r
                  | None \<Rightarrow> sm_find (txHash vote) (mapLockRequestRejected ?st2)"
    have w2: "wf_orphans ?st2"
      using wf set_sm_set[of "vote_GetHash vote" vote "mapTxLockVotesOrphan ?st"]
      by (auto simp: wf_orphans_def list_all_iff)
    have wr: "wf_orphans (snd (orphan_rate_check env vote ?st2))"
      using w2 by (simp add: wf_orphans_def)
    have unfold: "ProcessTxLockVote_orphan ?preq env vote ?st
        = (case ?it of
             None \<Rightarrow> Some (orphan_rate_check env vote ?st2)
           | Some r \<Rightarrow>
               if IsEnoughOrphanVotesForTx env ?st2 r
               then (case ?preq r ?st2 of None \<Rightarrow> None | Some res \<Rightarrow> Some (True, snd res))
               else Some (orphan_rate_check env vote ?st2))"
      using False by (simp add: ProcessTxLockVote_orphan_def Let_def del: ProcessTxLockVote_depth.simps)
    show ?thesis
    proof (cases ?it)
      case None
      have "ProcessTxLockVote_orphan ?preq env vote ?st = Some (orphan_rate_check env vote ?st2)"
        unfolding unfold None by simp
      then show ?thesis using wr by blast
    next
      case (Some r)
      from request_returns[OF w2, of n env r] obtain res where
        rr: "?preq r ?st2 = Some res" and wres: "wf_orphans (snd res)" by blast
      have wt: "wf_orphans (snd (True, snd res))" using wres by simp
      show ?thesis
      proof (cases "IsEnoughOrphanVotesForTx env ?st2 r")
        case True
        have "ProcessTxLockVote_orphan ?preq env vote ?st = Some (True, snd res)"
          unfolding unfold Some using True rr by (simp del: ProcessTxLockVote_depth.simps)
        then show ?thesis using wt by blast
      next
        case False
        have "ProcessTxLockVote_orphan ?preq env vote ?st
                = Some (orphan_rate_check env vote ?st2)"
          unfolding unfold Some using False by (simp del: ProcessTxLockVote_depth.simps)
        then show ?thesis using wr by blast
      qed
    qed
  qed
  have body: "ProcessTxLockVote_depth (Suc (Suc n)) env vote st
      = (case sm_find (txHash vote) (mapTxLockCandidates ?st) of
           None \<Rightarrow> ProcessTxLockVote_orphan ?preq env vote ?st
         | Some c \<Rightarrow> if txLockRequest c = None then ProcessTxLockVote_orphan ?preq env vote ?st
                     else Some (ProcessTxLockVote_attach env vote c ?st))"
    using True by (simp add: body_valid)
  show ?thesis
  proof (cases "sm_find (txHash vote) (mapTxLockCandidates ?st)")
    case None
    then show ?thesis unfolding body using orphan by simp
  next
    case (Some c)
    show ?thesis
    proof (cases "txLockRequest c")
      case None
      then show ?thesis unfolding body Some using orphan by simp
    next
      case (Some req)
      have "ProcessTxLockVote_depth (Suc (Suc n)) env vote st
              = Some (ProcessTxLockVote_attach env vote c ?st)"
        unfolding body \<open>sm_find (txHash vote) (mapTxLockCandidates ?st) = Some c\<close>
        using Some by simp
      then show ?thesis using wa[of c] by blast
    qed
  qed
qed

lemma ProcessMessage_returns:
  assumes "wf_orphans st"
  shows "\<exists>st'. ProcessMessage env nVersion msg st = Some st' \<and> wf_orphans st'"
proof (cases msg)
  case OtherCommand
  then show ?thesis using assms by (simp add: ProcessMessage_def)
next
  case (TXLOCKVOTE vote)
  let ?st1 = "st\<lparr>mapTxLockVotes := sm_insert (vote_GetHash vote) vote (mapTxLockVotes st)\<rparr>"
  have 1: "wf_orphans ?st1" using assms by (simp add: wf_orphans_def)
  obtain res where r: "ProcessTxLockVote env vote ?st1 = Some res" and w: "wf_orphans (snd res)"
    using vote_returns[OF 1, of 0 env vote] unfolding ProcessTxLockVote_def numeral_2_eq_2 by blast
  show ?thesis
    using assms r w by (simp add: ProcessMessage_def TXLOCKVOTE)
qed

lemma ProcessTxLockRequest_returns:
  "wf_orphans st \<Longrightarrow> \<exists>res. ProcessTxLockRequest env req st = Some res \<and> wf_orphans (snd res)"
  unfolding ProcessTxLockRequest_def One_nat_def by (rule request_returns)

lemma wf_orphans_reachable: "reachable st \<Longrightarrow> wf_orphans st"
proof (induction rule: reachable.induct)
  case (reachable_init h)
  show ?case by (simp add: wf_orphans_def engine_init_def)
next
  case (reachable_ProcessMessage st env nVersion msg st')
  then show ?case using ProcessMessage_returns[of st env nVersion msg] by auto
next
  case (reachable_ProcessTxLockRequest st env req r)
  then show ?case using ProcessTxLockRequest_returns[of st env req] by auto
next
  case (reachable_CheckAndRemove st env)
  then show ?case using CheckAndRemove_orphans_subset wf_orphans_subset by blast
next
  case (reachable_UpdatedBlockTip st h)
  then show ?case by (simp add: wf_orphans_def UpdatedBlockTip_def)
next
  case (reachable_SyncTransaction st env IsCoinBase t pblock)
  have "mapTxLockVotesOrphan (SyncTransaction env IsCoinBase t pblock st) = mapTxLockVotesOrphan st"
    by (simp add: SyncTransaction_def Let_def split: option.splits)
  then show ?case using reachable_SyncTransaction by (simp add: wf_orphans_def)
next
  case (reachable_AcceptLockRequest st req)
  then show ?case by (simp add: wf_orphans_def AcceptLockRequest_def)
next
  case (reachable_RejectLockRequest st req)
  then show ?case by (simp add: wf_orphans_def RejectLockRequest_def)
qed

end
